theory Spec2Isabelle
  imports Main
begin

section \<open>Text\<close>

text \<open>
  Python strings are modelled as \<^typ>\<open>string\<close>. The model covers ASCII text: a
  character below 128 is the code point of that number; characters from 128 on
  are treated as letters without case that are neither whitespace nor word
  characters.
\<close>

text \<open>\<^verbatim>\<open>str.isspace\<close> on one ASCII character: tab, line feed, vertical tab, form
  feed, carriage return, the four separators 28 to 31, and the space.\<close>

definition whitespace :: string where
  "whitespace = [CHR 0x09, CHR 0x0A, CHR 0x0B, CHR 0x0C, CHR 0x0D,
                 CHR 0x1C, CHR 0x1D, CHR 0x1E, CHR 0x1F, CHR 0x20]"

definition is_space :: "char \<Rightarrow> bool" where
  "is_space c = (c \<in> set whitespace)"

text \<open>\<^verbatim>\<open>str.strip()\<close>: whitespace removed at both ends.\<close>

definition strip :: "string \<Rightarrow> string" where
  "strip s = rev (dropWhile is_space (rev (dropWhile is_space s)))"

definition upper_char :: "char \<Rightarrow> char" where
  "upper_char c =
     (case map_of (zip ''abcdefghijklmnopqrstuvwxyz'' ''ABCDEFGHIJKLMNOPQRSTUVWXYZ'') c of
        None \<Rightarrow> c
      | Some u \<Rightarrow> u)"

text \<open>\<^verbatim>\<open>str.upper()\<close>.\<close>

definition upper :: "string \<Rightarrow> string" where
  "upper s = map upper_char s"

text \<open>\<^verbatim>\<open>s.startswith(p)\<close> and \<^verbatim>\<open>s.endswith(p)\<close>.\<close>

definition startswith :: "string \<Rightarrow> string \<Rightarrow> bool" where
  "startswith s p = (take (length p) s = p)"

definition endswith :: "string \<Rightarrow> string \<Rightarrow> bool" where
  "endswith s p = (length p \<le> length s \<and> drop (length s - length p) s = p)"

section \<open>The outside world\<close>

text \<open>
  What can be raised inside the \<^verbatim>\<open>try\<close> block of the validator:
  \<^verbatim>\<open>ProgrammingError\<close> (carrying the text of \<^verbatim>\<open>e.orig\<close>) or any other exception
  (carrying its text).
\<close>

datatype db_exception = Programming_error string | Other_error string

text \<open>
  How the \<^verbatim>\<open>with engine.connect()\<close> block ends. \<open>Connect_raised\<close>: opening the
  connection raised, and \<^verbatim>\<open>connection.execute\<close> was never reached.
  \<open>Execute_raised\<close>: the connection was opened, the statement was handed to
  \<^verbatim>\<open>connection.execute\<close>, and that call, or leaving the block, raised.
  \<open>Explain_ok\<close>: the statement was executed and the block was left normally.
\<close>

datatype db_outcome = Connect_raised db_exception | Execute_raised db_exception | Explain_ok

text \<open>
  The calls that leave the program, in the order they happen. \<open>Dry_run\<close> is
  the statement handed to \<^verbatim>\<open>connection.execute\<close>; \<open>Validated\<close> records that
  \<^verbatim>\<open>is_query_valid\<close> returned, with its argument and its result; \<open>LLM_call\<close> is
  the prompt handed to \<^verbatim>\<open>ollama.generate\<close>.
\<close>

datatype event = LLM_call string | Dry_run string | Validated string bool string

type_synonym trace = "event list"

section \<open>Validator\<close>

definition rejection_message :: string where
  "rejection_message = ''Validation failed: Only SELECT or CTE statements can be checked.''"

definition passes_gate :: "string \<Rightarrow> bool" where
  "passes_gate sql_query =
     (let clean_query = upper (strip sql_query)
      in startswith clean_query ''SELECT'' \<or> startswith clean_query ''WITH'')"

text \<open>The two \<^verbatim>\<open>except\<close> clauses of \<^verbatim>\<open>is_query_valid\<close>.\<close>

fun exception_verdict :: "db_exception \<Rightarrow> bool \<times> string" where
  "exception_verdict (Programming_error orig) = (False, orig)"
| "exception_verdict (Other_error e) = (False, ''An unexpected error occurred: '' @ e)"

text \<open>The three exits of the \<^verbatim>\<open>try\<close> block of \<^verbatim>\<open>is_query_valid\<close>.\<close>

fun db_verdict :: "db_outcome \<Rightarrow> bool \<times> string" where
  "db_verdict Explain_ok = (True, ''OK'')"
| "db_verdict (Connect_raised x) = exception_verdict x"
| "db_verdict (Execute_raised x) = exception_verdict x"

text \<open>Whether \<^verbatim>\<open>connection.execute\<close> was reached.\<close>

fun reaches_execute :: "db_outcome \<Rightarrow> bool" where
  "reaches_execute (Connect_raised x) = False"
| "reaches_execute (Execute_raised x) = True"
| "reaches_execute Explain_ok = True"

text \<open>
  \<^verbatim>\<open>is_query_valid(sql_query, engine)\<close>. The engine is the function \<open>explain\<close>:
  given what happened so far and the statement, it tells how the
  \<^verbatim>\<open>with engine.connect()\<close> block ends. The statement is recorded as a dry run
  only when the connection was opened. The result is the pair returned by the
  Python function, next to the trace extended by what this call did.
\<close>

definition is_query_valid ::
  "(trace \<Rightarrow> string \<Rightarrow> db_outcome) \<Rightarrow> string \<Rightarrow> trace \<Rightarrow> (bool \<times> string) \<times> trace" where
  "is_query_valid explain sql_query tr =
     (if \<not> passes_gate sql_query
      then ((False, rejection_message), tr @ [Validated sql_query False rejection_message])
      else
        let stmt = ''EXPLAIN '' @ sql_query;
            outcome = explain tr stmt;
            r = db_verdict outcome
        in (r, tr @ (if reaches_execute outcome then [Dry_run stmt] else [])
                  @ [Validated sql_query (fst r) (snd r)]))"

definition dry_runs :: "trace \<Rightarrow> string list" where
  "dry_runs tr = concat (map (\<lambda>e. case e of Dry_run s \<Rightarrow> [s] | _ \<Rightarrow> []) tr)"

section \<open>Output Extractor\<close>

text \<open>Word characters of the regular expression (\<^verbatim>\<open>\w\<close>): letters, digits, underscore.\<close>

definition word_chars :: string where
  "word_chars = ''abcdefghijklmnopqrstuvwxyzABCDEFGHIJKLMNOPQRSTUVWXYZ0123456789_''"

definition is_word_char :: "char \<Rightarrow> bool" where
  "is_word_char c = (c \<in> set word_chars)"

text \<open>
  \<^verbatim>\<open>\b\<close> between two neighbouring characters: exactly one of them is a word
  character. \<open>None\<close> stands for the outside of the text, which is no word
  character.
\<close>

fun is_word_opt :: "char option \<Rightarrow> bool" where
  "is_word_opt None = False"
| "is_word_opt (Some c) = is_word_char c"

definition word_boundary :: "char option \<Rightarrow> char option \<Rightarrow> bool" where
  "word_boundary l r = (is_word_opt l \<noteq> is_word_opt r)"

definition next_char :: "string \<Rightarrow> char option" where
  "next_char s = (case s of [] \<Rightarrow> None | c # _ \<Rightarrow> Some c)"

text \<open>
  The letters of a keyword matched one by one under \<^verbatim>\<open>re.IGNORECASE\<close>; the
  result is the last character matched and the text that follows the match.
\<close>

fun match_ci :: "string \<Rightarrow> char option \<Rightarrow> string \<Rightarrow> (char option \<times> string) option" where
  "match_ci [] prev s = Some (prev, s)"
| "match_ci (k # ks) prev [] = None"
| "match_ci (k # ks) prev (c # cs) = (if upper_char c = k then match_ci ks (Some c) cs else None)"

text \<open>One alternative of the group, followed by the closing \<^verbatim>\<open>\b\<close>.\<close>

definition keyword_then_boundary :: "string \<Rightarrow> char option \<Rightarrow> string \<Rightarrow> bool" where
  "keyword_then_boundary kw prev s =
     (case match_ci kw prev s of
        None \<Rightarrow> False
      | Some (l, rest) \<Rightarrow> word_boundary l (next_char rest))"

text \<open>
  The pattern \<^verbatim>\<open>\b(SELECT|WITH)\b\<close> tried at one position: \<open>prev\<close> is the
  character before the position, \<open>s\<close> the text from the position on.
\<close>

definition pattern_at :: "char option \<Rightarrow> string \<Rightarrow> bool" where
  "pattern_at prev s =
     (word_boundary prev (next_char s) \<and>
      (keyword_then_boundary ''SELECT'' prev s \<or> keyword_then_boundary ''WITH'' prev s))"

text \<open>\<^verbatim>\<open>re.search\<close>: the positions are tried from left to right; the result is
  \<^verbatim>\<open>match.start()\<close>, or \<open>None\<close> when nothing matches.\<close>

fun search_from :: "char option \<Rightarrow> string \<Rightarrow> nat \<Rightarrow> nat option" where
  "search_from prev [] i = None"
| "search_from prev (c # cs) i =
     (if pattern_at prev (c # cs) then Some i else search_from (Some c) cs (Suc i))"

definition re_search :: "string \<Rightarrow> nat option" where
  "re_search s = search_from None s 0"

text \<open>\<^verbatim>\<open>s.rfind(c)\<close>: the index of the last \<open>c\<close>, or \<open>-1\<close>.\<close>

fun rfind :: "string \<Rightarrow> char \<Rightarrow> int" where
  "rfind [] c = - 1"
| "rfind (x # xs) c =
     (let r = rfind xs c in if r \<noteq> - 1 then r + 1 else if x = c then 0 else - 1)"

text \<open>
  \<^verbatim>\<open>clean_sql_output(raw_output)\<close>. The argument is what \<^verbatim>\<open>query_olama\<close>
  returned, which is \<^verbatim>\<open>None\<close> after a failed call.
\<close>

definition clean_sql_output :: "string option \<Rightarrow> string" where
  "clean_sql_output raw_output =
     (case raw_output of
        None \<Rightarrow> []
      | Some raw \<Rightarrow>
          if raw = [] then []
          else
            (case re_search raw of
               None \<Rightarrow> []
             | Some start \<Rightarrow>
                 let query_candidate = drop start raw;
                     last_semicolon_pos = rfind query_candidate CHR '';'';
                     final_query =
                       (if last_semicolon_pos \<noteq> - 1
                        then take (nat (last_semicolon_pos + 1)) query_candidate
                        else query_candidate)
                 in strip final_query))"

subsection \<open>The extractor as the specification words it\<close>

text \<open>
  A keyword occurs at position \<open>i\<close> of the text when the text reads \<open>kw\<close>
  there, case ignored, as a whole word: no word character right before it and
  none right after it.
\<close>

definition occurs_at :: "string \<Rightarrow> string \<Rightarrow> nat \<Rightarrow> bool" where
  "occurs_at kw s i =
     (i + length kw \<le> length s \<and>
      upper (take (length kw) (drop i s)) = kw \<and>
      (i = 0 \<or> \<not> is_word_char (s ! (i - 1))) \<and>
      (i + length kw = length s \<or> \<not> is_word_char (s ! (i + length kw))))"

definition keyword_at :: "string \<Rightarrow> nat \<Rightarrow> bool" where
  "keyword_at s i = (occurs_at ''SELECT'' s i \<or> occurs_at ''WITH'' s i)"

text \<open>The first position of the text at which a keyword occurs.\<close>

definition first_keyword :: "string \<Rightarrow> nat option" where
  "first_keyword s = find (keyword_at s) [0..<length s]"

text \<open>The position of the last semicolon of a text.\<close>

definition last_semicolon :: "string \<Rightarrow> nat option" where
  "last_semicolon s =
     (case filter (\<lambda>j. s ! j = CHR '';'') [0..<length s] of
        [] \<Rightarrow> None
      | j # js \<Rightarrow> Some (last (j # js)))"

text \<open>
  Trimming, worded by positions: the positions of a text that hold no
  whitespace; the text from the first of them on; the text up to the last of
  them. A text without such a position becomes empty.
\<close>

definition non_space_positions :: "string \<Rightarrow> nat list" where
  "non_space_positions u = filter (\<lambda>i. \<not> is_space (u ! i)) [0..<length u]"

definition without_leading_space :: "string \<Rightarrow> string" where
  "without_leading_space u =
     (case non_space_positions u of [] \<Rightarrow> [] | i # _ \<Rightarrow> drop i u)"

definition without_trailing_space :: "string \<Rightarrow> string" where
  "without_trailing_space u =
     (case non_space_positions u of [] \<Rightarrow> [] | j # js \<Rightarrow> take (Suc (last (j # js))) u)"

definition trim_spec :: "string \<Rightarrow> string" where
  "trim_spec u = without_trailing_space (without_leading_space u)"

text \<open>
  Everything before the first keyword is dropped; the remainder is cut after
  its last semicolon when it has one; the result is trimmed. Without a keyword
  the result is empty.
\<close>

definition extract_spec :: "string \<Rightarrow> string" where
  "extract_spec s =
     (case first_keyword s of
        None \<Rightarrow> []
      | Some i \<Rightarrow>
          let remainder = drop i s
          in (case last_semicolon remainder of
                None \<Rightarrow> trim_spec remainder
              | Some j \<Rightarrow> trim_spec (take (Suc j) remainder)))"

text \<open>A text begins with the keyword, case ignored, and no word character
  follows it.\<close>

definition reads :: "string \<Rightarrow> string \<Rightarrow> bool" where
  "reads kw s = (length kw \<le> length s \<and> upper (take (length kw) s) = kw
                 \<and> (length kw = length s \<or> \<not> is_word_char (s ! length kw)))"

section \<open>Dialect Normalizer\<close>

subsection \<open>Token trees\<close>

text \<open>
  The normalizer works on the token tree of the library \<^verbatim>\<open>sqlparse\<close>, which is
  not part of the repository. Its tree is modelled as far as
  \<^verbatim>\<open>fix_postgres_sql\<close> reads it: a leaf has a token type and a text; a group has
  a class, the text it had when it was built (\<^verbatim>\<open>value\<close>, an attribute that is
  not recomputed when the children change, and which is also the group's
  \<^verbatim>\<open>normalized\<close>) and its children (\<^verbatim>\<open>tokens\<close>). Token types are kept apart as
  far as the code tells them apart: \<open>T_Name_Quoted\<close> is \<^verbatim>\<open>Name.Quoted\<close>, \<open>T_Name\<close>
  every other name, \<open>T_Keyword\<close> every type within \<^verbatim>\<open>Keyword\<close>, \<open>T_Literal\<close> every
  type within \<^verbatim>\<open>Literal\<close> (strings and numbers), \<open>T_Whitespace\<close> whitespace and
  newlines.
\<close>

datatype ttype =
  T_Name | T_Name_Quoted | T_Keyword | T_Literal | T_Punctuation | T_Whitespace | T_Other

datatype gclass =
  Function | Identifier | IdentifierList | Parenthesis | TypedLiteral | Other_group

datatype token = Leaf ttype string | Group gclass string "token list"

text \<open>
  The exceptions of the model. \<open>UnicodeDecodeError\<close> is what reading a file
  that is not UTF-8 raises (in Python a subclass of \<^verbatim>\<open>ValueError\<close>);
  \<open>SQLParseError\<close> is the exception of \<^verbatim>\<open>sqlparse\<close>; \<open>Other_exception\<close> is any
  other exception, named by its text.
\<close>

datatype py_error =
  IndexError | AttributeError | FileNotFoundError | UnicodeDecodeError | SQLParseError
  | ValueError string | Other_exception string

text \<open>A statement is the list of its top-level tokens; the parser returns the
  statements of a text, or raises.\<close>

type_synonym statement = "token list"
type_synonym parser = "string \<Rightarrow> py_error + statement list"

fun value_of :: "token \<Rightarrow> string" where
  "value_of (Leaf ty v) = v"
| "value_of (Group c v ts) = v"

fun is_keyword :: "token \<Rightarrow> bool" where
  "is_keyword (Leaf ty v) = (ty = T_Keyword)"
| "is_keyword (Group c v ts) = False"

fun is_whitespace :: "token \<Rightarrow> bool" where
  "is_whitespace (Leaf ty v) = (ty = T_Whitespace)"
| "is_whitespace (Group c v ts) = False"

text \<open>\<^verbatim>\<open>isinstance(token, cls)\<close>.\<close>

fun isinstance :: "token \<Rightarrow> gclass \<Rightarrow> bool" where
  "isinstance (Leaf ty v) cls = False"
| "isinstance (Group c v ts) cls = (c = cls)"

text \<open>\<^verbatim>\<open>token.normalized\<close>: the upper-cased text of a keyword, the text of
  anything else.\<close>

fun normalized :: "token \<Rightarrow> string" where
  "normalized (Leaf ty v) = (if ty = T_Keyword then upper v else v)"
| "normalized (Group c v ts) = v"

text \<open>\<^verbatim>\<open>str(statement)\<close>: the texts of the leaves, left to right.\<close>

fun render_token :: "token \<Rightarrow> string" and render :: "token list \<Rightarrow> string" where
  "render_token (Leaf ty v) = v"
| "render_token (Group c v ts) = render ts"
| "render [] = []"
| "render (t # ts) = render_token t @ render ts"

text \<open>\<^verbatim>\<open>IdentifierList.get_identifiers()\<close>: the children that are neither
  whitespace nor a comma.\<close>

fun is_comma :: "token \<Rightarrow> bool" where
  "is_comma (Leaf ty v) = (ty = T_Punctuation \<and> v = '','')"
| "is_comma (Group c v ts) = False"

definition get_identifiers :: "token list \<Rightarrow> token list" where
  "get_identifiers ts = filter (\<lambda>t. \<not> (is_whitespace t \<or> is_comma t)) ts"

text \<open>
  The loop of \<^verbatim>\<open>Function.get_parameters()\<close> over the children of the
  parenthesis: an identifier list answers with its identifiers at once; a
  function, identifier, typed literal or literal is collected.
\<close>

fun is_parameter :: "token \<Rightarrow> bool" where
  "is_parameter (Leaf ty v) = (ty = T_Literal)"
| "is_parameter (Group c v ts) = (c = Function \<or> c = Identifier \<or> c = TypedLiteral)"

fun collect_parameters :: "token list \<Rightarrow> token list \<Rightarrow> token list" where
  "collect_parameters result [] = result"
| "collect_parameters result (Group IdentifierList v ts # rest) = get_identifiers ts"
| "collect_parameters result (t # rest) =
     (if is_parameter t then collect_parameters (result @ [t]) rest
      else collect_parameters result rest)"

text \<open>\<^verbatim>\<open>Function.get_parameters()\<close> on the children of a function: the first
  parenthesis among them is searched; without one the method reads an
  attribute of \<^verbatim>\<open>None\<close>.\<close>

definition get_parameters :: "token list \<Rightarrow> py_error + token list" where
  "get_parameters ts =
     (case find (\<lambda>t. isinstance t Parenthesis) ts of
        Some (Group c v ps) \<Rightarrow> Inr (collect_parameters [] ps)
      | _ \<Rightarrow> Inl AttributeError)"

subsection \<open>\<^verbatim>\<open>fix_postgres_sql\<close>\<close>

text \<open>\<^verbatim>\<open>reparse_snippet\<close>: the tokens of the first statement of the snippet.\<close>

definition reparse_snippet :: "parser \<Rightarrow> string \<Rightarrow> py_error + token list" where
  "reparse_snippet P snippet =
     (case P snippet of
        Inl e \<Rightarrow> Inl e
      | Inr [] \<Rightarrow> Inl IndexError
      | Inr (st # _) \<Rightarrow> Inr st)"

text \<open>The search for the name of a function: the \<^verbatim>\<open>normalized\<close> of the first
  child that is a keyword or an identifier.\<close>

definition func_name :: "token list \<Rightarrow> string option" where
  "func_name ts = map_option normalized (find (\<lambda>t. is_keyword t \<or> isinstance t Identifier) ts)"

definition and_then :: "'e + 'a \<Rightarrow> ('a \<Rightarrow> 'e + 'b) \<Rightarrow> 'e + 'b" where
  "and_then r f = (case r of Inl e \<Rightarrow> Inl e | Inr x \<Rightarrow> f x)"

text \<open>
  The part of the loop body under \<^verbatim>\<open>isinstance(token, Function)\<close>, for a
  function whose cached text is \<open>v\<close> and whose children, already processed,
  are \<open>ts\<close>. The parameters' texts are their \<^verbatim>\<open>value\<close> attributes. The fixes
  3 to 6 are four \<^verbatim>\<open>if\<close> statements in a row, each replacing the children by
  the tokens of its snippet.
\<close>

definition rewrite_function :: "parser \<Rightarrow> string \<Rightarrow> token list \<Rightarrow> py_error + token" where
  "rewrite_function P v ts =
     (case func_name ts of
        None \<Rightarrow> Inr (Group Function v ts)
      | Some name \<Rightarrow>
          if name = [] then Inr (Group Function v ts)
          else
            and_then (get_parameters ts) (\<lambda>params.
              if name = ''NOW'' \<and> params = []
              then and_then (reparse_snippet P ''CURRENT_TIMESTAMP'') (\<lambda>ts'. Inr (Group Function v ts'))
              else
                and_then
                  (if name = ''IFNULL'' \<and> length params = 2
                   then reparse_snippet P
                          (''COALESCE('' @ value_of (params ! 0) @ '', '' @ value_of (params ! 1) @ '')'')
                   else Inr ts) (\<lambda>ts3.
                and_then
                  (if name = ''DATE'' \<and> length params = 1
                   then reparse_snippet P (''CAST('' @ value_of (params ! 0) @ '' AS DATE)'')
                   else Inr ts3) (\<lambda>ts4.
                and_then
                  (if name = ''ROUND'' \<and> length params = 2
                   then reparse_snippet P
                          (''ROUND(CAST('' @ value_of (params ! 0) @ '' AS NUMERIC), ''
                           @ value_of (params ! 1) @ '')'')
                   else Inr ts4) (\<lambda>ts5.
                and_then
                  (if name = ''FORMAT_DATE'' \<and> length params = 2
                   then reparse_snippet P (''TO_CHAR('' @ value_of (params ! 1) @ '', 'Month')'')
                   else Inr ts5) (\<lambda>ts6.
                Inr (Group Function v ts6)))))))"

text \<open>Fix 1 on a leaf.\<close>

definition fix_quoted :: "ttype \<Rightarrow> string \<Rightarrow> string" where
  "fix_quoted ty v =
     (if ty = T_Name_Quoted \<and> startswith v ''`'' \<and> endswith v ''`''
      then ''\"'' @ butlast (tl v) @ ''\"''
      else v)"

text \<open>
  \<^verbatim>\<open>process_tokens\<close>. The Python mutates the tree in place; the model returns
  the rewritten tokens. The children of a group are processed before the
  group itself is looked at.
\<close>

fun process_token :: "parser \<Rightarrow> token \<Rightarrow> py_error + token"
  and process_tokens :: "parser \<Rightarrow> token list \<Rightarrow> py_error + token list" where
  "process_token P (Leaf ty v) = Inr (Leaf ty (fix_quoted ty v))"
| "process_token P (Group c v ts) =
     (case process_tokens P ts of
        Inl e \<Rightarrow> Inl e
      | Inr ts' \<Rightarrow> if c = Function then rewrite_function P v ts' else Inr (Group c v ts'))"
| "process_tokens P [] = Inr []"
| "process_tokens P (t # ts) =
     (case process_token P t of
        Inl e \<Rightarrow> Inl e
      | Inr t' \<Rightarrow>
          (case process_tokens P ts of
             Inl e \<Rightarrow> Inl e
           | Inr ts' \<Rightarrow> Inr (t' # ts')))"

definition fix_postgres_sql :: "parser \<Rightarrow> string \<Rightarrow> py_error + string" where
  "fix_postgres_sql P sql =
     (case P sql of
        Inl e \<Rightarrow> Inl e
      | Inr [] \<Rightarrow> Inr (strip sql)
      | Inr (statement # _) \<Rightarrow>
          (case process_tokens P statement of
             Inl e \<Rightarrow> Inl e
           | Inr ts \<Rightarrow> Inr (strip (render ts))))"

subsection \<open>Trees the normalizer leaves alone\<close>

definition target_names :: "string list" where
  "target_names = [''NOW'', ''IFNULL'', ''DATE'', ''ROUND'', ''FORMAT_DATE'']"

text \<open>The children of a function that is none of the five targeted ones (and
  whose parameters can be read).\<close>

definition untargeted :: "token list \<Rightarrow> bool" where
  "untargeted ts =
     (case func_name ts of
        None \<Rightarrow> True
      | Some name \<Rightarrow>
          name = [] \<or> (name \<notin> set target_names \<and> \<not> isl (get_parameters ts)))"

text \<open>A tree without a targeted function and without a quoted name in
  backticks, at any depth.\<close>

fun settled :: "token \<Rightarrow> bool" and all_settled :: "token list \<Rightarrow> bool" where
  "settled (Leaf ty v) = (fix_quoted ty v = v)"
| "settled (Group c v ts) = (all_settled ts \<and> (c = Function \<longrightarrow> untargeted ts))"
| "all_settled [] = True"
| "all_settled (t # ts) = (settled t \<and> all_settled ts)"

text \<open>The output of a first application parses to a tree that the normalizer
  leaves alone and that reads as the output itself.\<close>

definition output_settled :: "parser \<Rightarrow> string \<Rightarrow> bool" where
  "output_settled P s1 =
     (case P s1 of
        Inl e \<Rightarrow> False
      | Inr [] \<Rightarrow> True
      | Inr (st # _) \<Rightarrow> all_settled st \<and> render st = s1)"

text \<open>The normalizer applied to its own output.\<close>

definition normalize_twice :: "parser \<Rightarrow> string \<Rightarrow> py_error + string" where
  "normalize_twice P s = and_then (fix_postgres_sql P s) (fix_postgres_sql P)"

subsection \<open>Token trees of sample texts\<close>

text \<open>
  The results of \<^verbatim>\<open>sqlparse.parse\<close> on the texts used in the examples below,
  written down as the library builds them: a name in front of a parenthesis is
  a function whose first child is an identifier holding the name; arguments
  separated by commas form an identifier list; \<^verbatim>\<open>x AS t\<close> is one identifier
  whose last child is the type name as a bare leaf (\<^verbatim>\<open>Name.Builtin\<close>); a name in
  backticks is a leaf of type \<^verbatim>\<open>Name\<close> inside an identifier; the empty text has
  no statement. A text outside the table is returned as one unclassified leaf;
  the examples use no such text. On none of these texts does the parser
  raise.
\<close>

definition ident :: "string \<Rightarrow> token" where
  "ident x = Group Identifier x [Leaf T_Name x]"

definition space :: token where
  "space = Leaf T_Whitespace '' ''"

definition comma :: token where
  "comma = Leaf T_Punctuation '',''"

text \<open>The call \<open>f(args)\<close>, where \<open>inner\<close> are the tokens between the brackets.\<close>

definition call :: "string \<Rightarrow> string \<Rightarrow> token list \<Rightarrow> token" where
  "call f args inner =
     Group Function (f @ ''('' @ args @ '')'')
       [ident f,
        Group Parenthesis (''('' @ args @ '')'')
          ([Leaf T_Punctuation ''(''] @ inner @ [Leaf T_Punctuation '')''])]"

text \<open>Two arguments \<open>a, b\<close>.\<close>

definition two_args :: "token \<Rightarrow> token \<Rightarrow> token" where
  "two_args a b = Group IdentifierList (value_of a @ '', '' @ value_of b) [a, comma, space, b]"

text \<open>\<open>x AS t\<close> where \<open>x\<close> is a name, and where \<open>x\<close> is a call.\<close>

definition name_as :: "string \<Rightarrow> string \<Rightarrow> token" where
  "name_as x t =
     Group Identifier (x @ '' AS '' @ t)
       [Leaf T_Name x, space, Leaf T_Keyword ''AS'', space, Leaf T_Name t]"

definition call_as :: "token \<Rightarrow> string \<Rightarrow> token" where
  "call_as c t =
     Group Identifier (value_of c @ '' AS '' @ t)
       [c, space, Leaf T_Keyword ''AS'', space, Leaf T_Name t]"

definition cast_x_numeric :: token where
  "cast_x_numeric = call ''CAST'' ''x AS NUMERIC'' [name_as ''x'' ''NUMERIC'']"

definition sqlparse_table :: "string \<Rightarrow> statement list" where
  "sqlparse_table s =
     (if s = [] then []
      else if s = ''NOW()'' then [[call ''NOW'' [] []]]
      else if s = ''CURRENT_TIMESTAMP'' then [[Leaf T_Keyword ''CURRENT_TIMESTAMP'']]
      else if s = ''IFNULL(a, b)'' then
        [[call ''IFNULL'' ''a, b'' [two_args (ident ''a'') (ident ''b'')]]]
      else if s = ''COALESCE(a, b)'' then
        [[call ''COALESCE'' ''a, b'' [two_args (ident ''a'') (ident ''b'')]]]
      else if s = ''DATE(x)'' then [[call ''DATE'' ''x'' [ident ''x'']]]
      else if s = ''CAST(x AS DATE)'' then
        [[call ''CAST'' ''x AS DATE'' [name_as ''x'' ''DATE'']]]
      else if s = ''ROUND(x, 2)'' then
        [[call ''ROUND'' ''x, 2'' [two_args (ident ''x'') (Leaf T_Literal ''2'')]]]
      else if s = ''ROUND(CAST(x AS NUMERIC), 2)'' then
        [[call ''ROUND'' ''CAST(x AS NUMERIC), 2''
            [two_args cast_x_numeric (Leaf T_Literal ''2'')]]]
      else if s = ''ROUND(CAST(CAST(x AS NUMERIC) AS NUMERIC), 2)'' then
        [[call ''ROUND'' ''CAST(CAST(x AS NUMERIC) AS NUMERIC), 2''
            [two_args
               (call ''CAST'' ''CAST(x AS NUMERIC) AS NUMERIC'' [call_as cast_x_numeric ''NUMERIC''])
               (Leaf T_Literal ''2'')]]]
      else if s = ''FORMAT_DATE('%B', d)'' then
        [[call ''FORMAT_DATE'' '''%B', d'' [two_args (Leaf T_Literal ('''%B'' @ [CHR 0x27])) (ident ''d'')]]]
      else if s = ''FORMAT_DATE('%Y', d)'' then
        [[call ''FORMAT_DATE'' '''%Y', d'' [two_args (Leaf T_Literal ('''%Y'' @ [CHR 0x27])) (ident ''d'')]]]
      else if s = ''TO_CHAR(d, 'Month')'' then
        [[call ''TO_CHAR'' (''d, 'Month'' @ [CHR 0x27])
            [two_args (ident ''d'') (Leaf T_Literal ('''Month'' @ [CHR 0x27]))]]]
      else if s = ''`col`'' then [[ident ''`col`'']]
      else if s = ''IFNULL(NOW(), b)'' then
        [[call ''IFNULL'' ''NOW(), b'' [two_args (call ''NOW'' [] []) (ident ''b'')]]]
      else if s = ''COALESCE(NOW(), b)'' then
        [[call ''COALESCE'' ''NOW(), b'' [two_args (call ''NOW'' [] []) (ident ''b'')]]]
      else if s = ''SELECT 1;'' then
        [[Leaf T_Keyword ''SELECT'', space, Leaf T_Literal ''1'', Leaf T_Punctuation '';'']]
      else if s = ''UPPER(NOW())'' then
        [[call ''UPPER'' ''NOW()'' [call ''NOW'' [] []]]]
      else [[Leaf T_Other s]])"

definition sqlparse_sample :: parser where
  "sqlparse_sample s = Inr (sqlparse_table s)"


section \<open>Prompt Builder\<close>

text \<open>\<^verbatim>\<open>str(n)\<close> for an integer.\<close>

definition digit_char :: "nat \<Rightarrow> char" where
  "digit_char d = ''0123456789'' ! d"

function str_nat :: "nat \<Rightarrow> string" where
  "str_nat n = (if n < 10 then [digit_char n] else str_nat (n div 10) @ [digit_char (n mod 10)])"
  by pat_completeness auto
termination
  by (relation "measure id") auto

definition str_int :: "int \<Rightarrow> string" where
  "str_int i = (if i < 0 then ''-'' @ str_nat (nat (- i)) else str_nat (nat i))"

text \<open>
  \<^verbatim>\<open>s.split(sep)\<close> for a separator that is not empty: \<open>cur\<close> is the piece read
  so far.
\<close>

fun split_from :: "string \<Rightarrow> string \<Rightarrow> string \<Rightarrow> string list" where
  "split_from sep cur [] = [cur]"
| "split_from sep cur (c # cs) =
     (if sep \<noteq> [] \<and> startswith (c # cs) sep
      then cur # split_from sep [] (drop (length sep - 1) cs)
      else split_from sep (cur @ [c]) cs)"

definition split :: "string \<Rightarrow> string \<Rightarrow> string list" where
  "split s sep = split_from sep [] s"

text \<open>The fixed text in front of the schema in the prompt.\<close>

definition prompt_head :: string where
  "prompt_head =
     ''\"  You are an expert PostgreSQL data analyst and query optimization specialist. Your sole purpose is to convert a business question into a single, high-performance, and syntactically correct PostgreSQL query based on the provided schema and rules.\<newline>'' @
     ''\<newline>'' @
     ''---\<newline>'' @
     ''### ## Core Directives\<newline>'' @
     ''1.  **Output Format:** You MUST respond ONLY with the raw SQL query. Do NOT include markdown code blocks (like ```sql), explanations, or any other text.\<newline>'' @
     ''2.  **Schema Adherence:** You MUST use ONLY the tables and columns provided in the schema below. Verify that every column you use exists in the specified table. Do not invent or assume any others.\<newline>'' @
     ''3.  **Error Handling:** If the question cannot be answered with the provided schema, you MUST reply with the exact text: \"Error: The question cannot be answered with the available schema.\"\<newline>'' @
     ''4.  **Dialect Compliance:** The query MUST be 100% compliant with the PostgreSQL dialect.\<newline>'' @
     ''\<newline>'' @
     ''---\<newline>'' @
     ''### ## SQL Logic & Structure Rules\<newline>'' @
     ''1.  **GROUP BY Rule:** When a `SELECT` statement includes an aggregate function (e.g., `SUM`, `COUNT`) alongside a regular column, that regular column MUST be in the `GROUP BY` clause.\<newline>'' @
     ''    * **INCORRECT:** `SELECT department, SUM(sales) FROM orders;`\<newline>'' @
     ''    * **CORRECT:** `SELECT department, SUM(sales) FROM orders GROUP BY department;`\<newline>'' @
     ''\<newline>'' @
     ''2.  **Filtering Aggregates (`HAVING` Clause):** To filter on the result of an aggregate function (`COUNT()`, `SUM()`, etc.), you MUST use the `HAVING` clause after the `GROUP BY`. You MUST NOT use aggregate functions in the `WHERE` clause.\<newline>'' @
     ''\<newline>'' @
     ''3.  **Filtering Window Functions (`ROW_NUMBER`)**: To filter on the result of a window function (`ROW_NUMBER()`, `RANK()`, etc.), you MUST first compute it in a Common Table Expression (CTE) or a subquery, and then apply the filter to the result in the outer query.\<newline>'' @
     ''\<newline>'' @
     ''4.  **Filtering Rows (`WHERE` Clause):** The `WHERE` clause must perfectly match the conditions and timeframes from the user's question. Do not add any \"hallucinated\" filters that were not requested.\<newline>'' @
     ''\<newline>'' @
     ''5.  **Cumulative Totals:** Do not calculate a cumulative total (e.g., a running sum) unless the user explicitly asks for it.\<newline>'' @
     ''\<newline>'' @
     ''6.  **Table Aliases:** Use short, non-reserved words for aliases. Ensure every column in the `GROUP BY` and `ORDER BY` clauses belongs to the correct table alias (e.g., `o.customer_id`).\<newline>'' @
     ''\<newline>'' @
     ''---\<newline>'' @
     ''### ## Business Context & Schema\<newline>'' @
     ''\<newline>'' @
     ''* **Join Key:** The `ssa_category_data` and `ssa_order_data` tables join on `variant_sku` and `sku`.\<newline>'' @
     ''* **Key Dimensions:** `order_date`, `title`, `customer_type`, `super_category`, `category`, `flavour`.\<newline>'' @
     ''* **Key Metrics:** `sales_revenue`, `sales_discount`, `order_quantity`.\<newline>'' @
     ''\<newline>'' @
     ''### Database Schema:\<newline>''"

text \<open>
  What the program reads from outside and whom it calls: the examples file
  (what opening and reading it gives: its text, or the exception raised, such
  as \<^verbatim>\<open>FileNotFoundError\<close> or \<^verbatim>\<open>UnicodeDecodeError\<close>), \<^verbatim>\<open>random.sample\<close>, the
  generation service (\<open>None\<close> when \<^verbatim>\<open>ollama.generate\<close> raises), the
  \<^verbatim>\<open>with engine.connect()\<close> block of the validator, and the parser of
  \<^verbatim>\<open>sqlparse\<close>, which may raise as well. Every answer but the parser's may
  depend on all that happened before.
  Each of them is a total function: a call to the outside is taken to come
  back, with an answer or with an exception.
\<close>

record world =
  examples_file :: "trace \<Rightarrow> py_error + string"
  random_sample :: "trace \<Rightarrow> string list \<Rightarrow> nat \<Rightarrow> string list"
  ollama_generate :: "trace \<Rightarrow> string \<Rightarrow> string option"
  explain :: "trace \<Rightarrow> string \<Rightarrow> db_outcome"
  sqlparse_parse :: parser

text \<open>One round of the loop that formats the selected examples: the block is
  split at \<^verbatim>\<open>---\<close>; reading \<^verbatim>\<open>parts[1]\<close> fails when there is one part only.\<close>

definition format_example :: "nat \<Rightarrow> string \<Rightarrow> py_error + string" where
  "format_example i block =
     (let parts = split (strip block) ''---''
      in if length parts < 2 then Inl IndexError
         else Inr (''### Example '' @ str_int (int i + 1) @ '':\<newline>\<newline>**'' @ strip (parts ! 0)
                   @ ''**\<newline>\<newline>**'' @ strip (parts ! 1) @ ''**\<newline>\<newline>''))"

fun format_examples :: "nat \<Rightarrow> string \<Rightarrow> string list \<Rightarrow> py_error + string" where
  "format_examples i formatted [] = Inr formatted"
| "format_examples i formatted (block # blocks) =
     (case format_example i block of
        Inl e \<Rightarrow> Inl e
      | Inr f \<Rightarrow> format_examples (Suc i) (formatted @ f) blocks)"

definition num_examples :: nat where
  "num_examples = 3"

text \<open>\<^verbatim>\<open>build_prompt_from_files\<close>, with the default number of examples.\<close>

definition build_prompt_from_files :: "world \<Rightarrow> trace \<Rightarrow> string \<Rightarrow> string \<Rightarrow> py_error + string" where
  "build_prompt_from_files w tr schema_string user_question =
     (case examples_file w tr of
        Inl e \<Rightarrow> Inl e
      | Inr examples_raw \<Rightarrow>
          let all_examples = filter (\<lambda>ex. ex \<noteq> []) (map strip (split (strip examples_raw) ''###''));
              selected_examples =
                (if length all_examples > num_examples
                 then random_sample w tr all_examples num_examples
                 else all_examples)
          in (case format_examples 0 [] selected_examples of
                Inl e \<Rightarrow> Inl e
              | Inr formatted_examples \<Rightarrow>
                  Inr (prompt_head @ schema_string @ ''\<newline>---\<newline>'' @ formatted_examples
                       @ ''\<newline>---\<newline>\<newline>### New Task:\<newline>**User Question:** '' @ user_question
                       @ ''\<newline>\<newline>**SQL Query:**\<newline>'')))"

section \<open>Generation service\<close>

text \<open>\<^verbatim>\<open>query_olama\<close>: the stripped response, or \<^verbatim>\<open>None\<close> when the call raised.\<close>

definition query_olama :: "world \<Rightarrow> string \<Rightarrow> trace \<Rightarrow> string option \<times> trace" where
  "query_olama w prompt tr = (map_option strip (ollama_generate w tr prompt), tr @ [LLM_call prompt])"

section \<open>Generation-Validation Loop\<close>

definition refinement_instruction :: "string \<Rightarrow> string \<Rightarrow> string \<Rightarrow> string" where
  "refinement_instruction user_question previous_sql user_feedback =
     ''\<newline>The user was not satisfied with the result from the previous query.\<newline>'' @
     ''Analyze the user's original question, the previous query, and the user's feedback.\<newline>'' @
     ''Create a new, corrected PostgreSQL query. Return ONLY the final SQL.\<newline>'' @
     ''\<newline>'' @
     ''**User's Original Question:** '' @ user_question @ ''\<newline>'' @
     ''**Previous Incorrect SQL Query:** '' @ previous_sql @ ''\<newline>'' @
     ''\<newline>**User's Feedback on Why It Was Wrong:**\<newline>'' @ user_feedback @ ''\<newline>''"

definition fix_instructions :: "string \<Rightarrow> string \<Rightarrow> string" where
  "fix_instructions generated_sql error_message =
     ''\<newline>The previously generated SQL query failed with a syntax error.\<newline>'' @
     ''Analyze the schema, examples, user question, failed SQL, and the database error message.\<newline>'' @
     ''Output ONLY the corrected, valid PostgreSQL query.\<newline>'' @
     ''\<newline>'' @
     ''**Failed SQL Query:** '' @ generated_sql @ ''\<newline>'' @
     ''**Database Error Message:** '' @ error_message @ ''\<newline>''"

text \<open>The text of the \<^verbatim>\<open>ValueError\<close> raised after the loop.\<close>

definition exhausted_message :: "int \<Rightarrow> string \<Rightarrow> string" where
  "exhausted_message max_syntax_retries error_message =
     ''Failed to generate a syntactically valid SQL query after ''
     @ str_int (max_syntax_retries + 1) @ '' attempts. ''
     @ ''Last database error: '' @ error_message"

text \<open>\<^verbatim>\<open>previous_sql and user_feedback\<close>: both given and not empty.\<close>

definition truthy :: "string option \<Rightarrow> bool" where
  "truthy x = (case x of None \<Rightarrow> False | Some s \<Rightarrow> s \<noteq> [])"

definition base_prompt_instruction :: "string \<Rightarrow> string option \<Rightarrow> string option \<Rightarrow> string" where
  "base_prompt_instruction user_question previous_sql user_feedback =
     (if truthy previous_sql \<and> truthy user_feedback
      then refinement_instruction user_question (the previous_sql) (the user_feedback)
      else user_question)"

text \<open>
  The \<^verbatim>\<open>for\<close> loop over the attempts still to run, and the \<^verbatim>\<open>raise\<close> after it.
  The state of the loop is the last candidate, the last error message and the
  trace. An exception of the prompt builder or of the normalizer leaves the
  function as it is; \<^verbatim>\<open>print\<close> is left out.
\<close>

fun attempts_loop ::
  "world \<Rightarrow> string \<Rightarrow> string \<Rightarrow> int \<Rightarrow> nat list \<Rightarrow> string \<Rightarrow> string \<Rightarrow> trace
     \<Rightarrow> (py_error + string) \<times> trace" where
  "attempts_loop w schema base n [] generated_sql error_message tr =
     (Inl (ValueError (exhausted_message n error_message)), tr)"
| "attempts_loop w schema base n (attempt # rest) generated_sql error_message tr =
     (case build_prompt_from_files w tr schema
             (if attempt = 0 then base
              else base @ ''\<newline>\<newline>'' @ fix_instructions generated_sql error_message) of
        Inl e \<Rightarrow> (Inl e, tr)
      | Inr prompt \<Rightarrow>
          (case query_olama w prompt tr of
             (generated_sql_raw, tr1) \<Rightarrow>
               (case fix_postgres_sql (sqlparse_parse w) (clean_sql_output generated_sql_raw) of
                  Inl e \<Rightarrow> (Inl e, tr1)
                | Inr new_sql \<Rightarrow>
                    (case is_query_valid (explain w) new_sql tr1 of
                       ((is_valid, message), tr2) \<Rightarrow>
                         if is_valid then (Inr new_sql, tr2)
                         else attempts_loop w schema base n rest new_sql message tr2))))"

definition default_max_syntax_retries :: int where
  "default_max_syntax_retries = 2"

text \<open>\<^verbatim>\<open>generate_and_validate_sql\<close>: the result, and the trace of this call.\<close>

definition generate_and_validate_sql ::
  "world \<Rightarrow> string \<Rightarrow> string \<Rightarrow> int \<Rightarrow> string option \<Rightarrow> string option
     \<Rightarrow> (py_error + string) \<times> trace" where
  "generate_and_validate_sql w user_question enhanced_schema max_syntax_retries previous_sql user_feedback =
     attempts_loop w enhanced_schema
       (base_prompt_instruction user_question previous_sql user_feedback)
       max_syntax_retries [0..<nat (max_syntax_retries + 1)] [] [] []"

text \<open>What a trace holds.\<close>

definition llm_calls :: "trace \<Rightarrow> string list" where
  "llm_calls tr = concat (map (\<lambda>e. case e of LLM_call p \<Rightarrow> [p] | _ \<Rightarrow> []) tr)"

definition validations :: "trace \<Rightarrow> (string \<times> bool \<times> string) list" where
  "validations tr = concat (map (\<lambda>e. case e of Validated s ok m \<Rightarrow> [(s, ok, m)] | _ \<Rightarrow> []) tr)"

text \<open>Every validation recorded in a list failed.\<close>

definition fails_all :: "(string \<times> bool \<times> string) list \<Rightarrow> bool" where
  "fails_all vs = (\<forall>v\<in>set vs. \<not> fst (snd v))"

subsection \<open>Sample worlds\<close>

text \<open>A generation service that never writes a query: every candidate is
  empty and the validator rejects it at the gate.\<close>

definition refusing_world :: world where
  "refusing_world =
     \<lparr>examples_file = (\<lambda>tr. Inr ''How many orders? --- SELECT 1; ### How many customers? --- SELECT 1;''),
      random_sample = (\<lambda>tr xs k. take k xs),
      ollama_generate = (\<lambda>tr prompt. Some ''Sorry, no query.''),
      explain = (\<lambda>tr stmt. Explain_ok),
      sqlparse_parse = sqlparse_sample\<rparr>"

text \<open>A generation service that answers with a query the database accepts.\<close>

definition answering_world :: world where
  "answering_world =
     \<lparr>examples_file = (\<lambda>tr. Inr ''How many orders? --- SELECT 1; ### How many customers? --- SELECT 1;''),
      random_sample = (\<lambda>tr xs k. take k xs),
      ollama_generate = (\<lambda>tr prompt. Some ''Sure! ```sql\<newline>SELECT 1;\<newline>``` done''),
      explain = (\<lambda>tr stmt. Explain_ok),
      sqlparse_parse = sqlparse_sample\<rparr>"





section \<open>Properties of the Validator\<close>

text \<open>
  Claim C1. A candidate whose trimmed, upper-cased form starts neither with
  \<^verbatim>\<open>SELECT\<close> nor with \<^verbatim>\<open>WITH\<close> is answered with \<open>False\<close> and the fixed
  rejection message, and the call hands no statement to the database: the
  trace grows by the record of the verdict only.
\<close>

theorem validator_rejects_without_dry_run:
  assumes "\<not> (startswith (upper (strip s)) ''SELECT'' \<or> startswith (upper (strip s)) ''WITH'')"
  shows "fst (is_query_valid ex s tr)
           = (False, ''Validation failed: Only SELECT or CTE statements can be checked.'')
         \<and> snd (is_query_valid ex s tr)
           = tr @ [Validated s False ''Validation failed: Only SELECT or CTE statements can be checked.'']
         \<and> dry_runs (snd (is_query_valid ex s tr)) = dry_runs tr"
  using assms
  by (simp add: is_query_valid_def passes_gate_def rejection_message_def dry_runs_def)

theorem validator_rejects_without_dry_run_witness:
  "\<not> (startswith (upper (strip ''  drop table t;'')) ''SELECT''
       \<or> startswith (upper (strip ''  drop table t;'')) ''WITH'')
   \<and> fst (is_query_valid (\<lambda>tr q. Explain_ok) ''  drop table t;'' [])
       = (False, ''Validation failed: Only SELECT or CTE statements can be checked.'')
   \<and> dry_runs (snd (is_query_valid (\<lambda>tr q. Explain_ok) ''  drop table t;'' [])) = []"
proof -
  have h: "\<not> (startswith (upper (strip ''  drop table t;'')) ''SELECT''
       \<or> startswith (upper (strip ''  drop table t;'')) ''WITH'')"
    by code_simp
  show ?thesis
    using h validator_rejects_without_dry_run [OF h, of "\<lambda>tr q. Explain_ok" "[]"]
    by (simp add: dry_runs_def)
qed

text \<open>
  Claim C10, as stated, fails where the connection to the database cannot be
  opened: the candidate \<^verbatim>\<open>WITHDRAW 100\<close> passes the gate, but
  \<^verbatim>\<open>engine.connect()\<close> raises, no statement is handed to the database, and the
  validator answers with the wrapped text of the exception.
\<close>

theorem gate_passed_nothing_sent_counterexample:
  "startswith (upper (strip ''WITHDRAW 100'')) ''WITH''
   \<and> fst (is_query_valid (\<lambda>tr stmt. Connect_raised (Other_error ''connection refused''))
             ''WITHDRAW 100'' [])
       = (False, ''An unexpected error occurred: connection refused'')
   \<and> dry_runs (snd (is_query_valid (\<lambda>tr stmt. Connect_raised (Other_error ''connection refused''))
             ''WITHDRAW 100'' []))
       = []"
  by code_simp

text \<open>
  Claim C10, amended. The gate compares a prefix of the text, not a word:
  whenever the trimmed, upper-cased candidate begins with the letters
  \<^verbatim>\<open>SELECT\<close> or \<^verbatim>\<open>WITH\<close>, whatever follows them, the validator goes to the
  database with the statement \<^verbatim>\<open>EXPLAIN\<close> plus candidate; the statement is
  handed to the database unless opening the connection raises, and the verdict
  is the one of the \<^verbatim>\<open>try\<close> block, not the rejection of the gate. The witness
  is a candidate starting with the word \<^verbatim>\<open>withdraw\<close>, which the database
  refuses as a syntax error.
\<close>

theorem gate_is_prefix_check:
  assumes "startswith (upper (strip s)) ''SELECT'' \<or> startswith (upper (strip s)) ''WITH''"
  shows "fst (is_query_valid ex s tr) = db_verdict (ex tr (''EXPLAIN '' @ s))
         \<and> snd (is_query_valid ex s tr)
             = tr @ (if reaches_execute (ex tr (''EXPLAIN '' @ s))
                     then [Dry_run (''EXPLAIN '' @ s)] else [])
                  @ [Validated s (fst (db_verdict (ex tr (''EXPLAIN '' @ s))))
                                 (snd (db_verdict (ex tr (''EXPLAIN '' @ s))))]
         \<and> dry_runs (snd (is_query_valid ex s tr))
             = (if reaches_execute (ex tr (''EXPLAIN '' @ s))
                then dry_runs tr @ [''EXPLAIN '' @ s] else dry_runs tr)"
  using assms
  by (simp add: is_query_valid_def passes_gate_def Let_def dry_runs_def)

theorem gate_is_prefix_check_witness:
  "(startswith (upper (strip ''withdraw 100 from accounts'')) ''SELECT''
      \<or> startswith (upper (strip ''withdraw 100 from accounts'')) ''WITH'')
   \<and> fst (is_query_valid
             (\<lambda>tr q. Execute_raised (Programming_error ''syntax error at or near withdraw''))
             ''withdraw 100 from accounts'' [])
       = (False, ''syntax error at or near withdraw'')
   \<and> dry_runs (snd (is_query_valid
             (\<lambda>tr q. Execute_raised (Programming_error ''syntax error at or near withdraw''))
             ''withdraw 100 from accounts'' []))
       = [''EXPLAIN withdraw 100 from accounts'']"
proof -
  have h: "startswith (upper (strip ''withdraw 100 from accounts'')) ''SELECT''
      \<or> startswith (upper (strip ''withdraw 100 from accounts'')) ''WITH''"
    by code_simp
  show ?thesis
    using h gate_is_prefix_check [OF h,
        of "\<lambda>tr q. Execute_raised (Programming_error ''syntax error at or near withdraw'')" "[]"]
    by (simp add: dry_runs_def)
qed

text \<open>Words that merely begin with the letters of a keyword pass the gate.\<close>

lemma gate_examples:
  "passes_gate ''WITHDRAW 100'' \<and> passes_gate ''SELECTION x'' \<and> passes_gate ''  selected''
   \<and> \<not> passes_gate ''DELETE FROM t'' \<and> \<not> passes_gate ''''"
  by code_simp

section \<open>Properties of the Output Extractor\<close>

text \<open>The source search and the first keyword position of the specification agree.\<close>

lemma is_word_char_upper: "is_word_char (upper_char c) = is_word_char c"
  by (auto simp: upper_char_def is_word_char_def word_chars_def split: option.splits if_splits)

lemma match_ci_eq:
  "match_ci kw prev s =
     (if length kw \<le> length s \<and> upper (take (length kw) s) = kw
      then Some (if kw = [] then prev else Some (s ! (length kw - 1)), drop (length kw) s)
      else None)"
proof (induction kw prev s rule: match_ci.induct)
  case (1 prev s)
  then show ?case by (simp add: upper_def)
next
  case (2 k ks prev)
  then show ?case by simp
next
  case (3 k ks prev c cs)
  then show ?case by (cases ks) (auto simp: upper_def)
qed

lemma upper_take_last:
  assumes "kw \<noteq> []" "length kw \<le> length s" "upper (take (length kw) s) = kw"
  shows "upper_char (s ! (length kw - 1)) = last kw" "upper_char (hd s) = hd kw"
proof -
  have l: "length kw - 1 < length (take (length kw) s)" using assms by (cases kw) auto
  have "last kw = (upper (take (length kw) s)) ! (length kw - 1)"
    using assms by (simp add: last_conv_nth)
  also have "\<dots> = upper_char (take (length kw) s ! (length kw - 1))"
    unfolding upper_def using l by (rule nth_map)
  finally show "upper_char (s ! (length kw - 1)) = last kw" using assms by (cases kw) auto
  have "hd kw = hd (upper (take (length kw) s))" using assms by simp
  also have "\<dots> = upper_char (hd s)" using assms by (cases kw; cases s) (auto simp: upper_def)
  finally show "upper_char (hd s) = hd kw" by simp
qed

lemma keyword_then_boundary_reads:
  assumes "kw \<noteq> []" "is_word_char (last kw)"
  shows "keyword_then_boundary kw prev s = reads kw s"
proof (cases "length kw \<le> length s \<and> upper (take (length kw) s) = kw")
  case False
  then show ?thesis by (auto simp: keyword_then_boundary_def match_ci_eq reads_def)
next
  case True
  then have "upper_char (s ! (length kw - 1)) = last kw"
    using upper_take_last(1) assms(1) by blast
  then have w: "is_word_char (s ! (length kw - 1))"
    using assms(2) is_word_char_upper by metis
  have n: "is_word_opt (next_char (drop (length kw) s))
            = (\<not> (length kw = length s \<or> \<not> is_word_char (s ! length kw)))"
    using True by (cases "drop (length kw) s") (auto simp: next_char_def dest: nth_via_drop)
  show ?thesis
    using True assms(1) w n
    by (simp add: keyword_then_boundary_def match_ci_eq reads_def word_boundary_def)
qed

lemma reads_first_word:
  assumes "kw \<noteq> []" "is_word_char (hd kw)" "reads kw s"
  shows "\<exists>c cs. s = c # cs \<and> is_word_char c"
proof -
  from assms obtain c cs where s: "s = c # cs" by (cases s) (auto simp: reads_def)
  have "upper_char (hd s) = hd kw" using assms upper_take_last(2) by (auto simp: reads_def)
  then have "is_word_char c" using assms(2) s is_word_char_upper by (metis list.sel(1))
  with s show ?thesis by blast
qed

lemma pattern_at_reads:
  "pattern_at prev s = (\<not> is_word_opt prev \<and> (reads ''SELECT'' s \<or> reads ''WITH'' s))"
proof -
  have k: "keyword_then_boundary ''SELECT'' prev s = reads ''SELECT'' s"
          "keyword_then_boundary ''WITH'' prev s = reads ''WITH'' s"
    by (rule keyword_then_boundary_reads; simp add: is_word_char_def word_chars_def)+
  have f: "reads ''SELECT'' s \<or> reads ''WITH'' s \<Longrightarrow> is_word_opt (next_char s)"
  proof -
    assume "reads ''SELECT'' s \<or> reads ''WITH'' s"
    moreover have "is_word_char (hd ''SELECT'')" "is_word_char (hd ''WITH'')"
      by (simp_all add: is_word_char_def word_chars_def)
    ultimately obtain c cs where "s = c # cs \<and> is_word_char c"
      using reads_first_word [of "''SELECT''" s] reads_first_word [of "''WITH''" s]
      by blast
    then show ?thesis by (simp add: next_char_def)
  qed
  show ?thesis unfolding pattern_at_def k using f by (auto simp: word_boundary_def)
qed

lemma occurs_at_reads:
  "occurs_at kw (pre @ s) (length pre) = (reads kw s \<and> (pre = [] \<or> \<not> is_word_char (last pre)))"
  by (auto simp: occurs_at_def reads_def nth_append last_conv_nth)

lemma search_from_find:
  "search_from (if pre = [] then None else Some (last pre)) cs (length pre)
     = find (keyword_at (pre @ cs)) [length pre..<length pre + length cs]"
proof (induction cs arbitrary: pre)
  case Nil
  then show ?case by simp
next
  case (Cons c cs)
  have p: "pattern_at (if pre = [] then None else Some (last pre)) (c # cs)
             = keyword_at (pre @ c # cs) (length pre)"
    by (auto simp: pattern_at_reads keyword_at_def occurs_at_reads)
  have u: "[length pre..<length pre + length (c # cs)]
             = length pre # [length (pre @ [c])..<length (pre @ [c]) + length cs]"
    by (subst upt_rec) simp
  show ?case
    unfolding u using Cons.IH [of "pre @ [c]"] p by simp
qed

lemma re_search_first_keyword: "re_search s = first_keyword s"
  using search_from_find [of "[]" s] by (simp add: re_search_def first_keyword_def)

lemma rfind_filter:
  "rfind s c = (case filter (\<lambda>j. s ! j = c) [0..<length s] of
                  [] \<Rightarrow> - 1
                | j # js \<Rightarrow> int (last (j # js)))"
proof (induction s)
  case Nil
  then show ?case by simp
next
  case (Cons x xs)
  let ?fs = "filter (\<lambda>j. xs ! j = c) [0..<length xs]"
  have u: "[0..<length (x # xs)] = 0 # map Suc [0..<length xs]"
    by (simp add: upt_conv_Cons map_Suc_upt del: upt_Suc)
  have f: "filter (\<lambda>j. (x # xs) ! j = c) [0..<length (x # xs)]
             = (if x = c then [0] else []) @ map Suc ?fs"
    unfolding u by (simp add: filter_map comp_def)
  show ?case
  proof (cases ?fs)
    case Nil
    then show ?thesis unfolding f using Cons.IH by (simp add: Let_def)
  next
    case (Cons j js)
    then have "rfind xs c = int (last (j # js))" using Cons.IH by simp
    then show ?thesis unfolding f using Cons by (simp add: Let_def last_map)
  qed
qed

lemma nat_int_Suc: "nat (int j + 1) = Suc j"
  by simp

text \<open>The source's \<^verbatim>\<open>strip\<close> and the trimming by positions agree.\<close>

lemma non_space_positions_Cons:
  "non_space_positions (x # xs)
     = (if is_space x then [] else [0]) @ map Suc (non_space_positions xs)"
proof -
  have u: "[0..<length (x # xs)] = 0 # map Suc [0..<length xs]"
    by (simp add: upt_conv_Cons map_Suc_upt del: upt_Suc)
  show ?thesis
    unfolding non_space_positions_def u by (simp add: filter_map comp_def)
qed

lemma non_space_positions_snoc:
  "non_space_positions (w @ [x])
     = non_space_positions w @ (if is_space x then [] else [length w])"
proof -
  have "filter (\<lambda>i. \<not> is_space ((w @ [x]) ! i)) [0..<length w]
          = filter (\<lambda>i. \<not> is_space (w ! i)) [0..<length w]"
    by (rule filter_cong) (auto simp: nth_append)
  then show ?thesis
    by (simp add: non_space_positions_def)
qed

lemma non_space_positions_bound: "i \<in> set (non_space_positions u) \<Longrightarrow> i < length u \<and> \<not> is_space (u ! i)"
  by (simp add: non_space_positions_def)

lemma dropWhile_leading: "dropWhile is_space u = without_leading_space u"
proof (induction u)
  case Nil
  then show ?case by (simp add: without_leading_space_def non_space_positions_def)
next
  case (Cons x xs)
  show ?case
  proof (cases "is_space x")
    case True
    then show ?thesis
      using Cons.IH
      by (simp add: without_leading_space_def non_space_positions_Cons split: list.splits)
  next
    case False
    then show ?thesis
      by (simp add: without_leading_space_def non_space_positions_Cons)
  qed
qed

lemma without_trailing_space_last:
  "without_trailing_space v
     = (if non_space_positions v = [] then []
        else take (Suc (last (non_space_positions v))) v)"
  by (simp add: without_trailing_space_def split: list.splits)

lemma dropWhile_trailing: "rev (dropWhile is_space (rev v)) = without_trailing_space v"
proof (induction v rule: rev_induct)
  case Nil
  then show ?case by (simp add: without_trailing_space_def non_space_positions_def)
next
  case (snoc x w)
  show ?case
  proof (cases "is_space x")
    case False
    then show ?thesis
      by (simp add: without_trailing_space_last non_space_positions_snoc)
  next
    case True
    show ?thesis
    proof (cases "non_space_positions w = []")
      case True
      then show ?thesis
        using \<open>is_space x\<close> snoc.IH
        by (simp add: without_trailing_space_last non_space_positions_snoc)
    next
      case False
      then have "last (non_space_positions w) \<in> set (non_space_positions w)"
        by (rule last_in_set)
      then have "last (non_space_positions w) < length w"
        using non_space_positions_bound by blast
      then have "take (Suc (last (non_space_positions w))) (w @ [x])
                   = take (Suc (last (non_space_positions w))) w"
        by simp
      then show ?thesis
        using \<open>is_space x\<close> snoc.IH False
        by (simp add: without_trailing_space_last non_space_positions_snoc)
    qed
  qed
qed

lemma strip_trim_spec: "strip u = trim_spec u"
proof -
  have "strip u = without_trailing_space (dropWhile is_space u)"
    unfolding strip_def by (rule dropWhile_trailing)
  then show ?thesis unfolding dropWhile_leading trim_spec_def .
qed

text \<open>What is trimmed neither begins nor ends with whitespace.\<close>

lemma without_leading_space_hd:
  "without_leading_space u = [] \<or> \<not> is_space (hd (without_leading_space u))"
proof (cases "non_space_positions u")
  case Nil
  then show ?thesis by (simp add: without_leading_space_def)
next
  case (Cons i rest)
  then have "i \<in> set (non_space_positions u)" by simp
  then have "i < length u \<and> \<not> is_space (u ! i)" by (rule non_space_positions_bound)
  then show ?thesis using Cons by (simp add: without_leading_space_def hd_drop_conv_nth)
qed

lemma without_trailing_space_ends:
  assumes "v = [] \<or> \<not> is_space (hd v)"
  shows "without_trailing_space v = []
         \<or> (\<not> is_space (hd (without_trailing_space v)) \<and> \<not> is_space (last (without_trailing_space v)))"
proof (cases "non_space_positions v = []")
  case True
  then show ?thesis by (simp add: without_trailing_space_last)
next
  case False
  let ?j = "last (non_space_positions v)"
  have "?j \<in> set (non_space_positions v)" using False by (rule last_in_set)
  then have b: "?j < length v \<and> \<not> is_space (v ! ?j)"
    by (rule non_space_positions_bound)
  then have ne: "v \<noteq> []" by auto
  have t: "without_trailing_space v = take (Suc ?j) v"
    using False by (simp add: without_trailing_space_last)
  have h: "hd (take (Suc ?j) v) = hd v" using ne by (cases v) simp_all
  have l: "last (take (Suc ?j) v) = v ! ?j"
    using b by (simp add: take_Suc_conv_app_nth)
  have n: "take (Suc ?j) v \<noteq> []" using ne by simp
  show ?thesis unfolding t h l using assms ne b n by simp
qed

lemma trim_spec_ends:
  "trim_spec u = [] \<or> (\<not> is_space (hd (trim_spec u)) \<and> \<not> is_space (last (trim_spec u)))"
  unfolding trim_spec_def by (rule without_trailing_space_ends) (rule without_leading_space_hd)

lemma extractor_result_trimmed:
  "clean_sql_output raw = []
   \<or> (\<not> is_space (hd (clean_sql_output raw)) \<and> \<not> is_space (last (clean_sql_output raw)))"
proof -
  have "clean_sql_output raw = [] \<or> (\<exists>u. clean_sql_output raw = trim_spec u)"
    by (auto simp: clean_sql_output_def Let_def strip_trim_spec split: option.splits)
  then show ?thesis using trim_spec_ends by metis
qed

lemma extractor_refines_spec: "clean_sql_output (Some s) = extract_spec s"
proof (cases "first_keyword s")
  case None
  then show ?thesis
    by (simp add: clean_sql_output_def extract_spec_def re_search_first_keyword)
next
  case (Some i)
  then have ne: "s \<noteq> []" by (auto simp: first_keyword_def)
  show ?thesis
    using Some ne
    by (simp add: clean_sql_output_def extract_spec_def re_search_first_keyword Let_def
        rfind_filter [of "drop i s"] last_semicolon_def nat_int_Suc strip_trim_spec
        split: list.splits)
qed

lemma no_match_no_keyword: "re_search s = None \<Longrightarrow> \<not> (\<exists>i<length s. keyword_at s i)"
  by (simp add: re_search_first_keyword first_keyword_def find_None_iff)

text \<open>
  Claim C5. The extractor computes what the specification describes: the text
  from the first whole-word occurrence of \<^verbatim>\<open>SELECT\<close> or \<^verbatim>\<open>WITH\<close> (case ignored)
  on, cut after its last semicolon when there is one, without the whitespace
  at its two ends. The specification's side is worded by positions only: the
  first position of a keyword, the last position of a semicolon, the first
  and the last position without whitespace. The result never begins or ends
  with whitespace. A text without a keyword gives the empty text; the example
  of the specification gives \<^verbatim>\<open>SELECT 1;\<close>; a remainder without semicolon that
  ends in spaces, a tab and a line feed loses them and keeps the spaces
  inside; a keyword inside a longer word is passed over, and the case of the
  letters does not matter.
\<close>

theorem extractor_follows_spec:
  "clean_sql_output (Some s) = extract_spec s
   \<and> (clean_sql_output (Some s) = []
        \<or> (\<not> is_space (hd (clean_sql_output (Some s)))
            \<and> \<not> is_space (last (clean_sql_output (Some s)))))
   \<and> (\<not> (\<exists>i<length s. keyword_at s i) \<longrightarrow> clean_sql_output (Some s) = [])
   \<and> clean_sql_output (Some ''Sure! ```sql\<newline>SELECT 1;\<newline>``` done'') = ''SELECT 1;''
   \<and> clean_sql_output
         (Some (''Here you go: with t as (select 1) select * from t  '' @ [CHR 0x09, CHR 0x0A]))
       = ''with t as (select 1) select * from t''
   \<and> clean_sql_output
         (Some ''preselect x; with_ a select; WiTh y as (select 1) select * from y; ok;  bye'')
       = ''select; WiTh y as (select 1) select * from y; ok;''"
proof -
  have a: "clean_sql_output (Some s) = extract_spec s"
    by (rule extractor_refines_spec)
  have t: "clean_sql_output (Some s) = []
        \<or> (\<not> is_space (hd (clean_sql_output (Some s)))
            \<and> \<not> is_space (last (clean_sql_output (Some s))))"
    by (rule extractor_result_trimmed)
  have b: "\<not> (\<exists>i<length s. keyword_at s i) \<longrightarrow> clean_sql_output (Some s) = []"
  proof
    assume "\<not> (\<exists>i<length s. keyword_at s i)"
    then have "first_keyword s = None" by (simp add: first_keyword_def find_None_iff)
    then show "clean_sql_output (Some s) = []" by (simp add: a extract_spec_def)
  qed
  have c: "clean_sql_output (Some ''Sure! ```sql\<newline>SELECT 1;\<newline>``` done'') = ''SELECT 1;''"
    by code_simp
  have d: "clean_sql_output
         (Some (''Here you go: with t as (select 1) select * from t  '' @ [CHR 0x09, CHR 0x0A]))
       = ''with t as (select 1) select * from t''"
    by code_simp
  have e: "clean_sql_output
         (Some ''preselect x; with_ a select; WiTh y as (select 1) select * from y; ok;  bye'')
       = ''select; WiTh y as (select 1) select * from y; ok;''"
    by code_simp
  from a t b c d e show ?thesis by blast
qed

theorem extractor_follows_spec_witness:
  "\<not> (\<exists>i<length ''Sorry; the selection is withheld.''.
          keyword_at ''Sorry; the selection is withheld.'' i)
   \<and> clean_sql_output (Some ''Sorry; the selection is withheld.'') = []
   \<and> extract_spec ''Sorry; the selection is withheld.'' = []"
proof -
  have r: "re_search ''Sorry; the selection is withheld.'' = None"
    by code_simp
  note h = no_match_no_keyword [OF r]
  note t = extractor_follows_spec [of "''Sorry; the selection is withheld.''"]
  have c: "clean_sql_output (Some ''Sorry; the selection is withheld.'') = []"
    using t h by blast
  have e: "extract_spec ''Sorry; the selection is withheld.'' = []"
    using t c by metis
  from h c e show ?thesis by blast
qed

text \<open>The specification's side evaluated on its own, and the extractor on
  an absent and on an empty response.\<close>

lemma extractor_examples:
  "extract_spec (''Here you go: with t as (select 1) select * from t  '' @ [CHR 0x09, CHR 0x0A])
     = ''with t as (select 1) select * from t''
   \<and> extract_spec ''select a; select b; thanks'' = ''select a; select b;''
   \<and> clean_sql_output None = []
   \<and> clean_sql_output (Some []) = []"
  by code_simp

section \<open>Properties of the Dialect Normalizer\<close>

lemma rstrip_prefix: "x = rev (dropWhile P (rev x)) @ rev (takeWhile P (rev x))"
  by (metis rev_append rev_rev_ident takeWhile_dropWhile_id)

lemma hd_rstrip:
  assumes "rev (dropWhile P (rev x)) \<noteq> []"
  shows "hd (rev (dropWhile P (rev x))) = hd x"
  using assms rstrip_prefix [of x P] by (metis hd_append2)

lemma dropWhile_unchanged: "x = [] \<or> \<not> P (hd x) \<Longrightarrow> dropWhile P x = x"
  by (cases x) auto

lemma rstrip_keeps_head:
  assumes "x = [] \<or> \<not> P (hd x)"
  shows "rev (dropWhile P (rev x)) = [] \<or> \<not> P (hd (rev (dropWhile P (rev x))))"
proof (cases "rev (dropWhile P (rev x)) = []")
  case True
  then show ?thesis by blast
next
  case False
  then have h: "hd (rev (dropWhile P (rev x))) = hd x" by (rule hd_rstrip)
  have "x \<noteq> []" using False by (metis dropWhile.simps(1) rev.simps(1))
  with assms h show ?thesis by metis
qed

lemma strip_strip: "strip (strip s) = strip s"
proof -
  have "dropWhile is_space s = [] \<or> \<not> is_space (hd (dropWhile is_space s))"
    by (metis hd_dropWhile)
  then have "dropWhile is_space (rev (dropWhile is_space (rev (dropWhile is_space s))))
               = rev (dropWhile is_space (rev (dropWhile is_space s)))"
    by (intro dropWhile_unchanged rstrip_keeps_head)
  then show ?thesis by (simp add: strip_def dropWhile_idem)
qed

lemma untargeted_rewrite: "untargeted ts \<Longrightarrow> rewrite_function P v ts = Inr (Group Function v ts)"
  by (auto simp: untargeted_def rewrite_function_def and_then_def target_names_def
      split: option.splits sum.splits)

lemma settled_unchanged:
  "settled t \<Longrightarrow> process_token P t = Inr t"
  "all_settled ts \<Longrightarrow> process_tokens P ts = Inr ts"
  by (induction P t and P ts rule: process_token_process_tokens.induct)
     (auto simp: untargeted_rewrite)

lemma fix_result_stripped: "fix_postgres_sql P s = Inr s1 \<Longrightarrow> strip s1 = s1"
  by (auto simp: fix_postgres_sql_def strip_strip split: list.splits sum.splits)

lemma settled_output_fixed:
  assumes "fix_postgres_sql P s = Inr s1" and "output_settled P s1"
  shows "fix_postgres_sql P s1 = Inr s1"
proof (cases "P s1")
  case (Inl e)
  then show ?thesis using assms(2) by (simp add: output_settled_def)
next
  case (Inr sts)
  show ?thesis
  proof (cases sts)
    case Nil
    then show ?thesis
      using Inr assms(1) by (simp add: fix_postgres_sql_def fix_result_stripped)
  next
    case (Cons st rest)
    then have "all_settled st" "render st = s1"
      using Inr assms(2) by (simp_all add: output_settled_def)
    then show ?thesis
      using Inr Cons assms(1)
      by (simp add: fix_postgres_sql_def settled_unchanged(2) fix_result_stripped)
  qed
qed

text \<open>The five rewrites of function calls on the examples of the specification,
  and a targeted call inside a function that is not targeted.\<close>

lemma normalizer_examples:
  "fix_postgres_sql sqlparse_sample ''NOW()'' = Inr ''CURRENT_TIMESTAMP''"
  "fix_postgres_sql sqlparse_sample ''IFNULL(a, b)'' = Inr ''COALESCE(a, b)''"
  "fix_postgres_sql sqlparse_sample ''DATE(x)'' = Inr ''CAST(x AS DATE)''"
  "fix_postgres_sql sqlparse_sample ''ROUND(x, 2)'' = Inr ''ROUND(CAST(x AS NUMERIC), 2)''"
  "fix_postgres_sql sqlparse_sample ''FORMAT_DATE('%B', d)'' = Inr ''TO_CHAR(d, 'Month')''"
  "fix_postgres_sql sqlparse_sample ''UPPER(NOW())'' = Inr ''UPPER(CURRENT_TIMESTAMP)''"
  by code_simp+

text \<open>A function that is none of the five keeps its (processed) children.\<close>

lemma unmatched_function_passes:
  assumes "func_name ts = Some name" and "name \<noteq> []" and "name \<notin> set target_names"
  shows "rewrite_function P v ts = and_then (get_parameters ts) (\<lambda>params. Inr (Group Function v ts))"
  using assms
  by (auto simp: rewrite_function_def and_then_def target_names_def split: sum.splits)

text \<open>A group that is no function passes on what the rewriting did to its children.\<close>

lemma rewrites_reach_nested_groups:
  assumes "c \<noteq> Function" and "process_tokens P ts = Inr ts'"
  shows "process_token P (Group c v ts) = Inr (Group c v ts')"
  using assms by simp

text \<open>Rewriting never updates the cached text of a group.\<close>

lemma group_value_kept:
  assumes "process_token P (Group c v ts) = Inr t'"
  shows "value_of t' = v"
  using assms
  by (auto simp: rewrite_function_def and_then_def split: sum.splits option.splits if_splits)

text \<open>The snippet of an outer rewrite is built from the cached texts of the
  parameters, whatever their children have become.\<close>

lemma ifnull_reads_cached_text:
  assumes "func_name ts = Some ''IFNULL''" and "get_parameters ts = Inr [a, b]"
  shows "rewrite_function P v ts =
           and_then (reparse_snippet P (''COALESCE('' @ value_of a @ '', '' @ value_of b @ '')''))
             (\<lambda>ts'. Inr (Group Function v ts'))"
  using assms
  by (simp add: rewrite_function_def and_then_def split: sum.splits)

text \<open>Fix 1 changes a leaf of type \<^verbatim>\<open>Name.Quoted\<close> and no leaf of type \<^verbatim>\<open>Name\<close>.\<close>

lemma fix_quoted_leaves:
  "process_token P (Leaf T_Name_Quoted ''`col`'') = Inr (Leaf T_Name_Quoted ''\"col\"'')"
  "process_token P (Leaf T_Name v) = Inr (Leaf T_Name v)"
  by (simp_all add: fix_quoted_def startswith_def endswith_def)

text \<open>
  Claim C4. On the sample trees the normalizer maps the five function examples
  as the specification lists them (\<open>normalizer_examples\<close>), leaves unmatched
  functions alone and reaches calls nested in groups it does not rewrite. Two
  parts of the claim fail on the code. A targeted call nested in another
  targeted call is lost: the outer snippet is built from the cached text of
  the parameter, so \<^verbatim>\<open>IFNULL(NOW(), b)\<close> becomes \<^verbatim>\<open>COALESCE(NOW(), b)\<close>. And
  the name in backticks stays as it is: the lexer gives it the type \<^verbatim>\<open>Name\<close>,
  while Fix 1 waits for \<^verbatim>\<open>Name.Quoted\<close>.
\<close>

theorem normalizer_misses_nested_and_backtick:
  "fix_postgres_sql sqlparse_sample ''IFNULL(NOW(), b)'' = Inr ''COALESCE(NOW(), b)''
   \<and> fix_postgres_sql sqlparse_sample ''`col`'' = Inr ''`col`''"
  by code_simp

text \<open>
  Claim C3, as stated, fails: the output of the rewrite of \<^verbatim>\<open>ROUND(x, 2)\<close> is
  again a call of \<^verbatim>\<open>ROUND\<close> with two arguments, and a second application wraps
  the first argument once more.
\<close>

theorem normalizer_not_idempotent_counterexample:
  "fix_postgres_sql sqlparse_sample ''ROUND(x, 2)'' = Inr ''ROUND(CAST(x AS NUMERIC), 2)''
   \<and> normalize_twice sqlparse_sample ''ROUND(x, 2)''
       = Inr ''ROUND(CAST(CAST(x AS NUMERIC) AS NUMERIC), 2)''
   \<and> normalize_twice sqlparse_sample ''ROUND(x, 2)'' \<noteq> fix_postgres_sql sqlparse_sample ''ROUND(x, 2)''"
  by code_simp

text \<open>
  Claim C3, amended. A second application of the normalizer changes nothing
  whenever the output of the first one parses to a tree without targeted
  function and without quoted name in backticks (and the parser gives back
  the text it was given). This is so for the examples of the other patterns:
  \<^verbatim>\<open>NOW()\<close>, \<^verbatim>\<open>IFNULL(a, b)\<close>, \<^verbatim>\<open>DATE(x)\<close>, \<^verbatim>\<open>FORMAT_DATE('%B', d)\<close> and the name in
  backticks.
\<close>

theorem normalizer_idempotent_when_settled:
  "(fix_postgres_sql P s = Inr s1 \<and> output_settled P s1
      \<longrightarrow> normalize_twice P s = fix_postgres_sql P s)
   \<and> (\<forall>x\<in>set [''NOW()'', ''IFNULL(a, b)'', ''DATE(x)'', ''FORMAT_DATE('%B', d)'', ''`col`''].
         normalize_twice sqlparse_sample x = fix_postgres_sql sqlparse_sample x)"
proof -
  have a: "fix_postgres_sql P s = Inr s1 \<and> output_settled P s1
             \<longrightarrow> normalize_twice P s = fix_postgres_sql P s"
    using settled_output_fixed [of P s s1] by (auto simp: normalize_twice_def and_then_def)
  have b: "\<forall>x\<in>set [''NOW()'', ''IFNULL(a, b)'', ''DATE(x)'', ''FORMAT_DATE('%B', d)'', ''`col`''].
         normalize_twice sqlparse_sample x = fix_postgres_sql sqlparse_sample x"
    by code_simp
  from a b show ?thesis by blast
qed

theorem normalizer_idempotent_when_settled_witness:
  "fix_postgres_sql sqlparse_sample ''IFNULL(a, b)'' = Inr ''COALESCE(a, b)''
   \<and> output_settled sqlparse_sample ''COALESCE(a, b)''
   \<and> normalize_twice sqlparse_sample ''IFNULL(a, b)'' = Inr ''COALESCE(a, b)''"
proof -
  have f: "fix_postgres_sql sqlparse_sample ''IFNULL(a, b)'' = Inr ''COALESCE(a, b)''"
    by code_simp
  have o: "output_settled sqlparse_sample ''COALESCE(a, b)''"
    by code_simp
  have "normalize_twice sqlparse_sample ''IFNULL(a, b)'' = fix_postgres_sql sqlparse_sample ''IFNULL(a, b)''"
    using normalizer_idempotent_when_settled [of sqlparse_sample "''IFNULL(a, b)''" "''COALESCE(a, b)''"] f o
    by blast
  with f o show ?thesis by metis
qed



section \<open>Properties of the Generation-Validation Loop\<close>

lemma llm_calls_append: "llm_calls (a @ b) = llm_calls a @ llm_calls b"
  by (simp add: llm_calls_def)

lemma validations_append: "validations (a @ b) = validations a @ validations b"
  by (simp add: validations_def)

lemma llm_calls_simps:
  "llm_calls [] = []"
  "llm_calls (LLM_call p # tr) = p # llm_calls tr"
  "llm_calls (Dry_run q # tr) = llm_calls tr"
  "llm_calls (Validated s ok m # tr) = llm_calls tr"
  by (simp_all add: llm_calls_def)

lemma validations_simps:
  "validations [] = []"
  "validations (LLM_call p # tr) = validations tr"
  "validations (Dry_run q # tr) = validations tr"
  "validations (Validated s ok m # tr) = (s, ok, m) # validations tr"
  by (simp_all add: validations_def)

lemma exception_verdict_False: "\<not> fst (exception_verdict x)"
  by (cases x) simp_all

lemma db_verdict_True: "fst (db_verdict d) \<Longrightarrow> d = Explain_ok \<and> snd (db_verdict d) = ''OK''"
  by (cases d) (simp_all add: exception_verdict_False)

text \<open>What one call of the validator adds to the trace.\<close>

lemma is_query_valid_accepts:
  assumes "is_query_valid ex s tr = ((True, m), tr2)"
  shows "tr2 = tr @ [Dry_run (''EXPLAIN '' @ s), Validated s True ''OK''] \<and> m = ''OK''
         \<and> passes_gate s \<and> ex tr (''EXPLAIN '' @ s) = Explain_ok"
proof -
  have g: "passes_gate s"
    using assms by (auto simp: is_query_valid_def split: if_splits)
  then have r: "db_verdict (ex tr (''EXPLAIN '' @ s)) = (True, m)"
    and t: "tr2 = tr @ (if reaches_execute (ex tr (''EXPLAIN '' @ s))
                        then [Dry_run (''EXPLAIN '' @ s)] else [])
                   @ [Validated s True m]"
    using assms by (auto simp: is_query_valid_def Let_def)
  have o: "ex tr (''EXPLAIN '' @ s) = Explain_ok \<and> m = ''OK''"
    using db_verdict_True [of "ex tr (''EXPLAIN '' @ s)"] r by simp
  show ?thesis using g t o by simp
qed

lemma is_query_valid_rejects:
  assumes "is_query_valid ex s tr = ((False, m), tr2)"
  shows "\<exists>evs. tr2 = tr @ evs \<and> llm_calls evs = [] \<and> validations evs = [(s, False, m)]
               \<and> length evs \<le> 2"
proof (cases "passes_gate s")
  case False
  then have "tr2 = tr @ [Validated s False m]"
    using assms by (auto simp: is_query_valid_def)
  then show ?thesis by (simp add: llm_calls_simps validations_simps)
next
  case True
  then have t: "tr2 = tr @ ((if reaches_execute (ex tr (''EXPLAIN '' @ s))
                        then [Dry_run (''EXPLAIN '' @ s)] else [])
                   @ [Validated s False m])"
    using assms by (auto simp: is_query_valid_def Let_def)
  show ?thesis
    by (rule exI [of _ "(if reaches_execute (ex tr (''EXPLAIN '' @ s))
                        then [Dry_run (''EXPLAIN '' @ s)] else [])
                   @ [Validated s False m]"])
       (simp add: t llm_calls_simps validations_simps)
qed

text \<open>One round of the loop, case by case.\<close>

lemma attempts_loop_step:
  assumes "attempts_loop w schema base n (a # as) gen err tr = (r, tr')"
  defines "q \<equiv> (if a = 0 then base else base @ ''\<newline>\<newline>'' @ fix_instructions gen err)"
  shows
   "(\<exists>e. build_prompt_from_files w tr schema q = Inl e \<and> r = Inl e \<and> tr' = tr)
    \<or> (\<exists>p e. build_prompt_from_files w tr schema q = Inr p
          \<and> fix_postgres_sql (sqlparse_parse w) (clean_sql_output (fst (query_olama w p tr))) = Inl e
          \<and> r = Inl e \<and> tr' = tr @ [LLM_call p])
    \<or> (\<exists>p s. build_prompt_from_files w tr schema q = Inr p
          \<and> fix_postgres_sql (sqlparse_parse w) (clean_sql_output (fst (query_olama w p tr))) = Inr s
          \<and> fst (fst (is_query_valid (explain w) s (tr @ [LLM_call p])))
          \<and> r = Inr s
          \<and> tr' = tr @ [LLM_call p, Dry_run (''EXPLAIN '' @ s), Validated s True ''OK''])
    \<or> (\<exists>p s m evs. build_prompt_from_files w tr schema q = Inr p
          \<and> fix_postgres_sql (sqlparse_parse w) (clean_sql_output (fst (query_olama w p tr))) = Inr s
          \<and> llm_calls evs = [] \<and> validations evs = [(s, False, m)] \<and> length evs \<le> 2
          \<and> attempts_loop w schema base n as s m (tr @ LLM_call p # evs) = (r, tr'))"
proof (cases "build_prompt_from_files w tr schema q")
  case (Inl e)
  then have "r = Inl e \<and> tr' = tr" using assms(1) unfolding q_def by auto
  with Inl show ?thesis by blast
next
  case (Inr p)
  note b = Inr
  obtain raw where o: "query_olama w p tr = (raw, tr @ [LLM_call p])"
    by (simp add: query_olama_def)
  show ?thesis
  proof (cases "fix_postgres_sql (sqlparse_parse w) (clean_sql_output raw)")
    case (Inl e)
    then have "r = Inl e \<and> tr' = tr @ [LLM_call p]" using assms(1) b o unfolding q_def by auto
    with Inl b o show ?thesis by auto
  next
    case (Inr s)
    obtain ok m tr2 where v: "is_query_valid (explain w) s (tr @ [LLM_call p]) = ((ok, m), tr2)"
      by (metis surj_pair)
    show ?thesis
    proof (cases ok)
      case True
      then have "r = Inr s \<and> tr' = tr2" using assms(1) b o Inr v unfolding q_def by auto
      moreover have "tr2 = (tr @ [LLM_call p]) @ [Dry_run (''EXPLAIN '' @ s), Validated s True ''OK'']"
        using True v is_query_valid_accepts [of "explain w" s "tr @ [LLM_call p]" m tr2] by simp
      moreover have "fst (fst (is_query_valid (explain w) s (tr @ [LLM_call p])))"
        using True v by simp
      ultimately show ?thesis using b o Inr by auto
    next
      case False
      then have v': "is_query_valid (explain w) s (tr @ [LLM_call p]) = ((False, m), tr2)"
        using v by simp
      obtain evs where e: "tr2 = (tr @ [LLM_call p]) @ evs" "llm_calls evs = []"
          "validations evs = [(s, False, m)]" "length evs \<le> 2"
        using is_query_valid_rejects [OF v'] by blast
      have "attempts_loop w schema base n as s m (tr @ LLM_call p # evs) = (r, tr')"
        using assms(1) b o Inr v False e(1) unfolding q_def by simp
      then show ?thesis using b o Inr e by auto
    qed
  qed
qed

text \<open>
  What a run of the loop over the attempts \<open>as\<close> leaves behind: the events it
  adds, and how it ends. An error is either the one raised after the loop,
  when each attempt was validated and failed, or an exception of the prompt
  builder or of the normalizer, raised in an attempt before which every
  validation failed; the trace tells which one: it ends where the exception
  was raised.
\<close>

lemma attempts_loop_summary:
  assumes "attempts_loop w schema base n as gen err tr = (r, tr')"
  shows "\<exists>ext. tr' = tr @ ext
           \<and> length (llm_calls ext) \<le> length as
           \<and> length ext \<le> 3 * length as
           \<and> (\<forall>s. r = Inr s \<longrightarrow>
                 (\<exists>mid. ext = mid @ [Dry_run (''EXPLAIN '' @ s), Validated s True ''OK'']
                    \<and> fst (fst (is_query_valid (explain w) s (tr @ mid)))))
           \<and> (\<forall>e. r = Inl e \<longrightarrow>
                 fails_all (validations ext)
                 \<and> (length (validations ext) = length as
                      \<and> e = ValueError (exhausted_message n
                             (if validations ext = [] then err else snd (snd (last (validations ext)))))
                    \<or> length (validations ext) < length as
                      \<and> ((\<exists>p. build_prompt_from_files w tr' schema p = Inl e)
                         \<or> (\<exists>tr0 p. tr' = tr0 @ [LLM_call p]
                               \<and> fix_postgres_sql (sqlparse_parse w)
                                    (clean_sql_output (fst (query_olama w p tr0))) = Inl e))))
           \<and> (length (validations ext) = length as \<and> fails_all (validations ext) \<longrightarrow>
                 r = Inl (ValueError (exhausted_message n
                         (if validations ext = [] then err else snd (snd (last (validations ext)))))))"
  using assms
proof (induction as arbitrary: gen err tr)
  case Nil
  then show ?case by (auto simp: validations_simps llm_calls_simps fails_all_def)
next
  case (Cons a as)
  let ?q = "if a = 0 then base else base @ ''\<newline>\<newline>'' @ fix_instructions gen err"
  from attempts_loop_step [OF Cons.prems]
  consider
    (builder) e where "build_prompt_from_files w tr schema ?q = Inl e" "r = Inl e" "tr' = tr"
  | (normalizer) p e where
      "fix_postgres_sql (sqlparse_parse w) (clean_sql_output (fst (query_olama w p tr))) = Inl e"
      "r = Inl e" "tr' = tr @ [LLM_call p]"
  | (accepted) p s where "r = Inr s"
      "tr' = tr @ [LLM_call p, Dry_run (''EXPLAIN '' @ s), Validated s True ''OK'']"
      "fst (fst (is_query_valid (explain w) s (tr @ [LLM_call p])))"
  | (rejected) p s m evs where "llm_calls evs = []" "validations evs = [(s, False, m)]"
      "attempts_loop w schema base n as s m (tr @ LLM_call p # evs) = (r, tr')" "length evs \<le> 2"
    by blast
  then show ?case
  proof cases
    case builder
    have b: "\<exists>p. build_prompt_from_files w tr' schema p = Inl e"
      using builder(1,3) by blast
    show ?thesis
      by (rule exI [of _ "[]"])
         (use builder(2,3) b in \<open>simp add: validations_simps llm_calls_simps fails_all_def\<close>)
  next
    case normalizer
    have b: "\<exists>tr0 p. tr' = tr0 @ [LLM_call p]
               \<and> fix_postgres_sql (sqlparse_parse w)
                    (clean_sql_output (fst (query_olama w p tr0))) = Inl e"
      using normalizer(1,3) by blast
    show ?thesis
      by (rule exI [of _ "[LLM_call p]"])
         (use normalizer(2,3) b in \<open>simp add: validations_simps llm_calls_simps fails_all_def\<close>)
  next
    case accepted
    have "[LLM_call p, Dry_run (''EXPLAIN '' @ s), Validated s True ''OK'']
            = [LLM_call p] @ [Dry_run (''EXPLAIN '' @ s), Validated s True ''OK'']
          \<and> fst (fst (is_query_valid (explain w) s (tr @ [LLM_call p])))"
      using accepted(3) by simp
    then have m: "\<exists>mid. [LLM_call p, Dry_run (''EXPLAIN '' @ s), Validated s True ''OK'']
            = mid @ [Dry_run (''EXPLAIN '' @ s), Validated s True ''OK'']
          \<and> fst (fst (is_query_valid (explain w) s (tr @ mid)))"
      by blast
    show ?thesis
      by (rule exI [of _ "[LLM_call p, Dry_run (''EXPLAIN '' @ s), Validated s True ''OK'']"])
         (use accepted(1,2) m in \<open>auto simp: validations_simps llm_calls_simps fails_all_def\<close>)
  next
    case rejected
    from Cons.IH [OF rejected(3)] obtain ext where ext:
      "tr' = (tr @ LLM_call p # evs) @ ext"
      "length (llm_calls ext) \<le> length as"
      "length ext \<le> 3 * length as"
      "\<forall>s. r = Inr s \<longrightarrow>
                 (\<exists>mid. ext = mid @ [Dry_run (''EXPLAIN '' @ s), Validated s True ''OK'']
                    \<and> fst (fst (is_query_valid (explain w) s ((tr @ LLM_call p # evs) @ mid))))"
      "\<forall>e. r = Inl e \<longrightarrow>
                 fails_all (validations ext)
                 \<and> (length (validations ext) = length as
                      \<and> e = ValueError (exhausted_message n
                             (if validations ext = [] then m else snd (snd (last (validations ext)))))
                    \<or> length (validations ext) < length as
                      \<and> ((\<exists>p. build_prompt_from_files w tr' schema p = Inl e)
                         \<or> (\<exists>tr0 p. tr' = tr0 @ [LLM_call p]
                               \<and> fix_postgres_sql (sqlparse_parse w)
                                    (clean_sql_output (fst (query_olama w p tr0))) = Inl e)))"
      "length (validations ext) = length as \<and> fails_all (validations ext) \<longrightarrow>
                 r = Inl (ValueError (exhausted_message n
                         (if validations ext = [] then m else snd (snd (last (validations ext))))))"
      by blast
    let ?ext = "LLM_call p # evs @ ext"
    have v: "validations ?ext = (s, False, m) # validations ext"
      by (simp add: validations_simps validations_append rejected(2))
    have l: "llm_calls ?ext = p # llm_calls ext"
      by (simp add: llm_calls_simps llm_calls_append rejected(1))
    have f: "fails_all (validations ?ext) = fails_all (validations ext)"
      by (simp add: v fails_all_def)
    have lm: "(if validations ?ext = [] then err else snd (snd (last (validations ?ext))))
               = (if validations ext = [] then m else snd (snd (last (validations ext))))"
      by (simp add: v)
    have lv: "length (validations ?ext) = Suc (length (validations ext))"
      by (simp add: v)
    have c1: "tr' = tr @ ?ext" using ext(1) by simp
    have c2: "length (llm_calls ?ext) \<le> length (a # as)" using ext(2) l by simp
    have c3: "length ?ext \<le> 3 * length (a # as)" using ext(3) rejected(4) by simp
    have c4: "\<forall>s. r = Inr s \<longrightarrow>
                 (\<exists>mid. ?ext = mid @ [Dry_run (''EXPLAIN '' @ s), Validated s True ''OK'']
                    \<and> fst (fst (is_query_valid (explain w) s (tr @ mid))))"
    proof (intro allI impI)
      fix s' assume "r = Inr s'"
      then obtain mid where mid: "ext = mid @ [Dry_run (''EXPLAIN '' @ s'), Validated s' True ''OK'']"
          "fst (fst (is_query_valid (explain w) s' ((tr @ LLM_call p # evs) @ mid)))"
        using ext(4) by blast
      have "?ext = (LLM_call p # evs @ mid) @ [Dry_run (''EXPLAIN '' @ s'), Validated s' True ''OK'']
            \<and> fst (fst (is_query_valid (explain w) s' (tr @ (LLM_call p # evs @ mid))))"
        using mid by simp
      then show "\<exists>mid. ?ext = mid @ [Dry_run (''EXPLAIN '' @ s'), Validated s' True ''OK'']
                    \<and> fst (fst (is_query_valid (explain w) s' (tr @ mid)))"
        by blast
    qed
    have c5: "\<forall>e. r = Inl e \<longrightarrow>
                 fails_all (validations ?ext)
                 \<and> (length (validations ?ext) = length (a # as)
                      \<and> e = ValueError (exhausted_message n
                             (if validations ?ext = [] then err else snd (snd (last (validations ?ext)))))
                    \<or> length (validations ?ext) < length (a # as)
                      \<and> ((\<exists>p. build_prompt_from_files w tr' schema p = Inl e)
                         \<or> (\<exists>tr0 p. tr' = tr0 @ [LLM_call p]
                               \<and> fix_postgres_sql (sqlparse_parse w)
                                    (clean_sql_output (fst (query_olama w p tr0))) = Inl e)))"
      unfolding f lm lv using ext(5) by simp
    have c6: "length (validations ?ext) = length (a # as) \<and> fails_all (validations ?ext) \<longrightarrow>
                 r = Inl (ValueError (exhausted_message n
                         (if validations ?ext = [] then err else snd (snd (last (validations ?ext))))))"
      unfolding f lm lv using ext(6) by simp
    show ?thesis
      using c1 c2 c3 c4 c5 c6 by blast
  qed
qed

text \<open>The summary for a whole call: the trace starts empty.\<close>

lemma generate_summary:
  assumes "generate_and_validate_sql w q schema n prev fb = (r, tr)"
  shows "length (llm_calls tr) \<le> nat (n + 1)"
    and "length tr \<le> 3 * nat (n + 1)"
    and "r = Inr s \<Longrightarrow>
           \<exists>mid. tr = mid @ [Dry_run (''EXPLAIN '' @ s), Validated s True ''OK'']
             \<and> fst (fst (is_query_valid (explain w) s mid))"
    and "r = Inl e \<Longrightarrow>
           fails_all (validations tr)
           \<and> (length (validations tr) = nat (n + 1)
                \<and> e = ValueError (exhausted_message n
                       (if validations tr = [] then [] else snd (snd (last (validations tr)))))
              \<or> length (validations tr) < nat (n + 1)
                \<and> ((\<exists>p. build_prompt_from_files w tr schema p = Inl e)
                   \<or> (\<exists>tr0 p. tr = tr0 @ [LLM_call p]
                         \<and> fix_postgres_sql (sqlparse_parse w)
                              (clean_sql_output (fst (query_olama w p tr0))) = Inl e)))"
    and "length (validations tr) = nat (n + 1) \<Longrightarrow> fails_all (validations tr) \<Longrightarrow>
           r = Inl (ValueError (exhausted_message n
                 (if validations tr = [] then [] else snd (snd (last (validations tr))))))"
proof -
  from attempts_loop_summary [OF assms [unfolded generate_and_validate_sql_def]]
  obtain ext where ext:
    "tr = [] @ ext"
    "length (llm_calls ext) \<le> length [0..<nat (n + 1)]"
    "length ext \<le> 3 * length [0..<nat (n + 1)]"
    "\<forall>s. r = Inr s \<longrightarrow>
       (\<exists>mid. ext = mid @ [Dry_run (''EXPLAIN '' @ s), Validated s True ''OK'']
          \<and> fst (fst (is_query_valid (explain w) s ([] @ mid))))"
    "\<forall>e. r = Inl e \<longrightarrow>
       fails_all (validations ext)
       \<and> (length (validations ext) = length [0..<nat (n + 1)]
            \<and> e = ValueError (exhausted_message n
                   (if validations ext = [] then [] else snd (snd (last (validations ext)))))
          \<or> length (validations ext) < length [0..<nat (n + 1)]
            \<and> ((\<exists>p. build_prompt_from_files w tr schema p = Inl e)
               \<or> (\<exists>tr0 p. tr = tr0 @ [LLM_call p]
                     \<and> fix_postgres_sql (sqlparse_parse w)
                          (clean_sql_output (fst (query_olama w p tr0))) = Inl e)))"
    "length (validations ext) = length [0..<nat (n + 1)] \<and> fails_all (validations ext) \<longrightarrow>
       r = Inl (ValueError (exhausted_message n
               (if validations ext = [] then [] else snd (snd (last (validations ext))))))"
    by blast
  have e: "ext = tr" using ext(1) by simp
  have l: "length [0..<nat (n + 1)] = nat (n + 1)" by simp
  show "length (llm_calls tr) \<le> nat (n + 1)" using ext(2) unfolding e l .
  show "length tr \<le> 3 * nat (n + 1)" using ext(3) unfolding e l .
  show "r = Inr s \<Longrightarrow>
           \<exists>mid. tr = mid @ [Dry_run (''EXPLAIN '' @ s), Validated s True ''OK'']
             \<and> fst (fst (is_query_valid (explain w) s mid))"
    using ext(4) unfolding e append_Nil by blast
  show "r = Inl e \<Longrightarrow>
           fails_all (validations tr)
           \<and> (length (validations tr) = nat (n + 1)
                \<and> e = ValueError (exhausted_message n
                       (if validations tr = [] then [] else snd (snd (last (validations tr)))))
              \<or> length (validations tr) < nat (n + 1)
                \<and> ((\<exists>p. build_prompt_from_files w tr schema p = Inl e)
                   \<or> (\<exists>tr0 p. tr = tr0 @ [LLM_call p]
                         \<and> fix_postgres_sql (sqlparse_parse w)
                              (clean_sql_output (fst (query_olama w p tr0))) = Inl e)))" for e
    using ext(5) unfolding e l by blast
  show "length (validations tr) = nat (n + 1) \<Longrightarrow> fails_all (validations tr) \<Longrightarrow>
           r = Inl (ValueError (exhausted_message n
                 (if validations tr = [] then [] else snd (snd (last (validations tr))))))"
    using ext(5) ext(6) unfolding e l by blast
qed

text \<open>
  Claim C2. Whatever the validator answers, a call with \<open>n \<ge> 0\<close> retries hands
  at most \<open>n + 1\<close> prompts to the generation service and ends: the function is
  total (the loop is a recursion over the list of attempts), its whole trace
  has at most three events per attempt, and its result is a candidate or an
  error. With the default of two retries that is at most three prompts.
\<close>

theorem loop_bounded_generation_calls:
  assumes "0 \<le> n"
  shows "int (length (llm_calls (snd (generate_and_validate_sql w q schema n prev fb)))) \<le> n + 1
         \<and> int (length (snd (generate_and_validate_sql w q schema n prev fb))) \<le> 3 * (n + 1)
         \<and> ((\<exists>candidate. fst (generate_and_validate_sql w q schema n prev fb) = Inr candidate)
             \<or> (\<exists>e. fst (generate_and_validate_sql w q schema n prev fb) = Inl e))
         \<and> length (llm_calls (snd (generate_and_validate_sql w q schema default_max_syntax_retries prev fb))) \<le> 3"
proof -
  obtain r tr where g: "generate_and_validate_sql w q schema n prev fb = (r, tr)"
    by (metis surj_pair)
  obtain r2 tr2 where d: "generate_and_validate_sql w q schema default_max_syntax_retries prev fb = (r2, tr2)"
    by (metis surj_pair)
  have a: "int (length (llm_calls tr)) \<le> n + 1" using generate_summary(1) [OF g] assms by linarith
  have "int (length tr) \<le> int (3 * nat (n + 1))" using generate_summary(2) [OF g] by (rule of_nat_mono)
  then have b: "int (length tr) \<le> 3 * (n + 1)" using assms by simp
  have c: "(\<exists>candidate. r = Inr candidate) \<or> (\<exists>e. r = Inl e)" by (cases r) auto
  have e: "length (llm_calls tr2) \<le> 3"
    using generate_summary(1) [OF d] by (simp add: default_max_syntax_retries_def)
  show ?thesis using a b c e by (simp add: g d)
qed

theorem loop_bounded_generation_calls_witness:
  "(0::int) \<le> 2
   \<and> length (llm_calls (snd (generate_and_validate_sql refusing_world ''How many orders?'' ''orders(id)'' 2 None None))) = 3
   \<and> int (length (llm_calls (snd (generate_and_validate_sql refusing_world ''How many orders?'' ''orders(id)'' 2 None None)))) \<le> 2 + 1
   \<and> (\<exists>e. fst (generate_and_validate_sql refusing_world ''How many orders?'' ''orders(id)'' 2 None None) = Inl e)"
proof -
  have h: "(0::int) \<le> 2" by simp
  have c: "length (llm_calls (snd (generate_and_validate_sql refusing_world ''How many orders?'' ''orders(id)'' 2 None None))) = 3"
    by code_simp
  have f: "fst (generate_and_validate_sql refusing_world ''How many orders?'' ''orders(id)'' 2 None None)
            = Inl (ValueError (exhausted_message 2 rejection_message))"
    by code_simp
  note t = loop_bounded_generation_calls [OF h, of refusing_world "''How many orders?''" "''orders(id)''" None None]
  have "int (length (llm_calls (snd (generate_and_validate_sql refusing_world ''How many orders?'' ''orders(id)'' 2 None None)))) \<le> 2 + 1"
    using t by blast
  with h c f show ?thesis by blast
qed

text \<open>
  Claim C7. When the first prompt can be built and the first candidate passes
  the validator, the call hands exactly one prompt to the generation service,
  validates exactly once and returns the very text it handed to the
  validator.
\<close>

theorem first_valid_candidate_is_returned:
  assumes "0 \<le> n"
    and "build_prompt_from_files w [] schema (base_prompt_instruction q prev fb) = Inr prompt"
    and "fix_postgres_sql (sqlparse_parse w) (clean_sql_output (fst (query_olama w prompt []))) = Inr candidate"
    and "fst (fst (is_query_valid (explain w) candidate [LLM_call prompt]))"
  shows "generate_and_validate_sql w q schema n prev fb
           = (Inr candidate,
              [LLM_call prompt, Dry_run (''EXPLAIN '' @ candidate), Validated candidate True ''OK''])
         \<and> llm_calls (snd (generate_and_validate_sql w q schema n prev fb)) = [prompt]
         \<and> validations (snd (generate_and_validate_sql w q schema n prev fb)) = [(candidate, True, ''OK'')]"
proof -
  have u: "[0..<nat (n + 1)] = 0 # [1..<nat (n + 1)]"
    using assms(1) by (simp add: upt_conv_Cons)
  obtain m tr2 where v: "is_query_valid (explain w) candidate [LLM_call prompt] = ((True, m), tr2)"
    using assms(4) by (metis (full_types) fst_conv surj_pair)
  have tr2: "tr2 = [LLM_call prompt, Dry_run (''EXPLAIN '' @ candidate), Validated candidate True ''OK'']"
    using is_query_valid_accepts [OF v] by simp
  have o: "query_olama w prompt [] = (fst (query_olama w prompt []), [LLM_call prompt])"
    by (simp add: query_olama_def)
  have g: "generate_and_validate_sql w q schema n prev fb
           = (Inr candidate,
              [LLM_call prompt, Dry_run (''EXPLAIN '' @ candidate), Validated candidate True ''OK''])"
    unfolding generate_and_validate_sql_def u
    using assms(2,3) v tr2 by (subst attempts_loop.simps) (simp add: o [symmetric] query_olama_def)
  show ?thesis by (simp add: g llm_calls_simps validations_simps)
qed

theorem first_valid_candidate_is_returned_witness:
  "(0::int) \<le> 2
   \<and> (\<exists>prompt. build_prompt_from_files answering_world [] ''orders(id)''
          (base_prompt_instruction ''How many orders?'' None None) = Inr prompt
        \<and> fix_postgres_sql (sqlparse_parse answering_world)
            (clean_sql_output (fst (query_olama answering_world prompt []))) = Inr ''SELECT 1;''
        \<and> fst (fst (is_query_valid (explain answering_world) ''SELECT 1;'' [LLM_call prompt]))
        \<and> generate_and_validate_sql answering_world ''How many orders?'' ''orders(id)'' 2 None None
            = (Inr ''SELECT 1;'',
               [LLM_call prompt, Dry_run ''EXPLAIN SELECT 1;'', Validated ''SELECT 1;'' True ''OK'']))"
proof -
  obtain prompt where b: "build_prompt_from_files answering_world [] ''orders(id)''
          (base_prompt_instruction ''How many orders?'' None None) = Inr prompt"
  proof -
    have "\<not> isl (build_prompt_from_files answering_world [] ''orders(id)''
          (base_prompt_instruction ''How many orders?'' None None))"
      by code_simp
    then show ?thesis using that by (metis sum.collapse(2))
  qed
  have f: "fix_postgres_sql (sqlparse_parse answering_world)
            (clean_sql_output (fst (query_olama answering_world p []))) = Inr ''SELECT 1;''" for p
  proof -
    have "fst (query_olama answering_world p [])
            = Some (strip ''Sure! ```sql\<newline>SELECT 1;\<newline>``` done'')"
      by (simp add: query_olama_def answering_world_def)
    moreover have "fix_postgres_sql (sqlparse_parse answering_world)
            (clean_sql_output (Some (strip ''Sure! ```sql\<newline>SELECT 1;\<newline>``` done''))) = Inr ''SELECT 1;''"
      by code_simp
    ultimately show ?thesis by simp
  qed
  have v: "fst (fst (is_query_valid (explain answering_world) ''SELECT 1;'' tr))" for tr
  proof -
    have "passes_gate ''SELECT 1;''" by code_simp
    then show ?thesis by (simp add: is_query_valid_def answering_world_def Let_def)
  qed
  have h: "(0::int) \<le> 2" by simp
  note t = first_valid_candidate_is_returned [OF h b f v]
  show ?thesis using h b f v t by auto
qed

text \<open>
  Claim C8. A text the call returns was handed to the validator in this very
  call, the database accepted its dry run, and the verdict was \<open>True\<close>: the
  trace of the call, which starts empty, ends with that dry run and that
  verdict. The function has no state besides its arguments, so nothing
  validated in an earlier call can be returned.
\<close>

theorem returned_query_was_validated:
  assumes "fst (generate_and_validate_sql w q schema n prev fb) = Inr s"
  shows "\<exists>earlier. snd (generate_and_validate_sql w q schema n prev fb)
                      = earlier @ [Dry_run (''EXPLAIN '' @ s), Validated s True ''OK'']
           \<and> is_query_valid (explain w) s earlier
               = ((True, ''OK''), earlier @ [Dry_run (''EXPLAIN '' @ s), Validated s True ''OK''])
           \<and> explain w earlier (''EXPLAIN '' @ s) = Explain_ok"
proof -
  obtain r tr where g: "generate_and_validate_sql w q schema n prev fb = (r, tr)"
    by (metis surj_pair)
  then have r: "r = Inr s" using assms by simp
  from generate_summary(3) [OF g r] obtain mid where
    mid: "tr = mid @ [Dry_run (''EXPLAIN '' @ s), Validated s True ''OK'']"
      "fst (fst (is_query_valid (explain w) s mid))"
    by blast
  obtain m tr2 where v: "is_query_valid (explain w) s mid = ((True, m), tr2)"
    using mid(2) by (metis (full_types) fst_conv surj_pair)
  note a = is_query_valid_accepts [OF v]
  have "is_query_valid (explain w) s mid
          = ((True, ''OK''), mid @ [Dry_run (''EXPLAIN '' @ s), Validated s True ''OK''])"
    using v a by simp
  moreover have "explain w mid (''EXPLAIN '' @ s) = Explain_ok" using a by simp
  ultimately show ?thesis using g mid(1) by auto
qed

theorem returned_query_was_validated_witness:
  "fst (generate_and_validate_sql answering_world ''How many orders?'' ''orders(id)'' 2 None None) = Inr ''SELECT 1;''
   \<and> (\<exists>earlier. snd (generate_and_validate_sql answering_world ''How many orders?'' ''orders(id)'' 2 None None)
                     = earlier @ [Dry_run ''EXPLAIN SELECT 1;'', Validated ''SELECT 1;'' True ''OK''])"
proof -
  have h: "fst (generate_and_validate_sql answering_world ''How many orders?'' ''orders(id)'' 2 None None) = Inr ''SELECT 1;''"
    by code_simp
  from returned_query_was_validated [OF h] h show ?thesis by auto
qed




end
